theory Spec2Isabelle
  imports Main
begin

section \<open>The inhibition controller of caffeine/core.py\<close>

text \<open>
  A shallow embedding of class \<open>Caffeine\<close>. The object's attributes and the effects it
  has on the outside (events emitted, external calls made, log lines, the timer objects
  it created) are the fields of one record that every method takes and returns. What
  the outside answers (the names on the session bus, the running processes, the active
  window, which remote call raises, which cookie a call returns) is the record
  \<open>env\<close>, a parameter of every method. A Python exception is the outcome
  \<open>Raised\<close>, returned together with the state as mutated up to the raise.
  Durations are Python integers (seconds), and \<open>gettext\<close> is taken as the identity
  (no translation catalogue).
\<close>

subsection \<open>Data\<close>

datatype icon = empty_cup_icon | full_cup_icon

datatype level = DEBUG | INFO | ERROR

text \<open>
  The calls that leave the process. \<open>Shell\<close> is \<open>subprocess.getoutput\<close>,
  \<open>SM\<close> the Gnome session manager proxy (\<open>susuProxy\<close>), \<open>SS\<close> the freedesktop
  screensaver proxy (\<open>ssProxy\<close>), \<open>PM\<close> the freedesktop power management proxy
  (\<open>pmProxy\<close>), \<open>Timeout_add\<close> and \<open>Source_remove\<close> the GObject main loop,
  \<open>Note_show\<close> the notification's \<open>show()\<close>.
\<close>

datatype ext_call =
    Shell string
  | SM_Inhibit
  | SM_Uninhibit nat
  | SS_Inhibit
  | SS_UnInhibit nat
  | PM_Inhibit
  | PM_UnInhibit nat
  | Timeout_add nat
  | Source_remove nat
  | Note_show string string icon

datatype exn = CallFailed ext_call | AttributeError string | TypeError

datatype outcome = Ok | Raised exn

text \<open>A \<open>threading.Timer\<close> object: its interval, its thread name, the argument bound
  for the callback, and whether it is still waiting to fire.\<close>

datatype tstatus = Waiting | Cancelled | Fired

record tm =
  interval :: int
  name :: string
  note_arg :: bool
  status :: tstatus

text \<open>
  The answers of the outside during one method call. \<open>fails k c\<close> says whether the
  remote call \<open>c\<close>, made when \<open>k\<close> external calls have been made before it, raises;
  \<open>cookie k\<close> is the handle such a call returns. \<open>active_window\<close> is \<open>None\<close> when
  there is no active window, \<open>Some None\<close> when \<open>getWmState\<close> returns \<open>None\<close>, and
  \<open>Some (Some names)\<close> otherwise.
\<close>

record env =
  bus_names :: "string list"
  isProcessRunning :: "string \<Rightarrow> bool"
  process_list :: "string list"
  active_window :: "string list option option"
  fails :: "nat \<Rightarrow> ext_call \<Rightarrow> bool"
  cookie :: "nat \<Rightarrow> nat"

text \<open>
  The attributes of the object (\<open>status_string\<close> to \<open>has_ssProxy\<close>; \<open>note_attr\<close> is
  \<open>self.note\<close>, \<open>has_ssProxy\<close> says whether \<open>self.ssProxy\<close> has been assigned,
  \<open>timer\<close> is a reference into the store \<open>timers\<close>), the store of timer objects
  (\<open>timers\<close>, allocated below \<open>next_timer\<close>), and the trace of effects: the
  \<open>activation-toggled\<close> signals emitted, the external calls made, the log records.
  \<open>toggles\<close> is an instrumentation counter of the returns of \<open>__toggle_activated\<close>.
\<close>

record state =
  status_string :: string
  screensaverAndPowersavingType :: "string option"
  inhibition_activated :: bool
  inhibition_successful :: bool
  auto_activated :: bool
  screenSaverCookie :: "nat option"
  powerManagementCookie :: "nat option"
  timer :: "nat option"
  inhibit_id :: "nat option"
  note_attr :: "(string \<times> string \<times> icon) option"
  has_ssProxy :: bool
  timers :: "nat \<Rightarrow> tm"
  next_timer :: nat
  events :: "(bool \<times> string) list"
  calls :: "ext_call list"
  logs :: "(level \<times> string) list"
  toggles :: nat

type_synonym stmt = "state \<Rightarrow> outcome \<times> state"

subsection \<open>Statements\<close>

text \<open>A block of statements runs them in order and stops at the first that raises.\<close>

fun seqs :: "stmt list \<Rightarrow> stmt" where
  "seqs [] s = (Ok, s)"
| "seqs (f # fs) s = (case f s of (Ok, s') \<Rightarrow> seqs fs s' | (Raised e, s') \<Rightarrow> (Raised e, s'))"

definition skip :: stmt where
  "skip s = (Ok, s)"

definition assign :: "(state \<Rightarrow> state) \<Rightarrow> stmt" where
  "assign f s = (Ok, f s)"

definition raise :: "exn \<Rightarrow> stmt" where
  "raise x s = (Raised x, s)"

definition log_line :: "level \<Rightarrow> string \<Rightarrow> state \<Rightarrow> state" where
  "log_line l m s = s\<lparr>logs := logs s @ [(l, m)]\<rparr>"

definition logging :: "level \<Rightarrow> string \<Rightarrow> stmt" where
  "logging l m s = (Ok, log_line l m s)"

text \<open>\<open>subprocess.getoutput\<close> and the main loop's calls return without raising.\<close>

definition local_call :: "ext_call \<Rightarrow> stmt" where
  "local_call c s = (Ok, s\<lparr>calls := calls s @ [c]\<rparr>)"

definition remote_call :: "env \<Rightarrow> ext_call \<Rightarrow> stmt" where
  "remote_call e c s =
     (if fails e (length (calls s)) c then Raised (CallFailed c) else Ok,
      s\<lparr>calls := calls s @ [c]\<rparr>)"

text \<open>A remote call whose result is stored: \<open>x = proxy.Inhibit(...)\<close>.\<close>

definition inhibit_call :: "env \<Rightarrow> ext_call \<Rightarrow> (nat \<Rightarrow> state \<Rightarrow> state) \<Rightarrow> stmt" where
  "inhibit_call e c store s =
     (case remote_call e c s of
        (Ok, s') \<Rightarrow> (Ok, store (cookie e (length (calls s))) s')
      | (Raised x, s') \<Rightarrow> (Raised x, s'))"

definition get_activated :: "state \<Rightarrow> bool" where
  "get_activated s = inhibition_activated s"

definition emit :: stmt where
  "emit s = (Ok, s\<lparr>events := events s @ [(get_activated s, status_string s)]\<rparr>)"

subsection \<open>Python's \<open>str\<close> on integers\<close>

definition digit_char :: "nat \<Rightarrow> char" where
  "digit_char d = char_of (48 + d)"

function str_nat :: "nat \<Rightarrow> string" where
  "str_nat n = (if n < 10 then [digit_char n] else str_nat (n div 10) @ [digit_char (n mod 10)])"
  by pat_completeness auto
termination
  by (relation "measure id") auto

declare str_nat.simps [simp del]

definition str_int :: "int \<Rightarrow> string" where
  "str_int i = (if i < 0 then CHR ''-'' # str_nat (nat (- i)) else str_nat (nat i))"

definition str_opt :: "string option \<Rightarrow> string" where
  "str_opt t = (case t of None \<Rightarrow> ''None'' | Some x \<Rightarrow> x)"

definition str_exn :: "exn \<Rightarrow> string" where
  "str_exn x = (case x of CallFailed c \<Rightarrow> ''DBusException'' | AttributeError a \<Rightarrow> a | TypeError \<Rightarrow> ''TypeError'')"

subsection \<open>Timers\<close>

text \<open>\<open>threading.Timer(time, self._deactivate, args=[note])\<close>, named and started.\<close>

definition timer_new :: "int \<Rightarrow> bool \<Rightarrow> stmt" where
  "timer_new time note s =
     (Ok, s\<lparr>timers := (timers s)(next_timer s :=
                \<lparr>interval = time, name = ''Active'', note_arg = note, status = Waiting\<rparr>),
             timer := Some (next_timer s),
             next_timer := Suc (next_timer s)\<rparr>)"

text \<open>\<open>cancel()\<close> stops a timer that has not fired yet.\<close>

definition timer_cancel :: "nat \<Rightarrow> stmt" where
  "timer_cancel i s =
     (Ok, s\<lparr>timers := (timers s)(i := (timers s i)
               \<lparr>status := (if status (timers s i) = Waiting then Cancelled else status (timers s i))\<rparr>)\<rparr>)"

definition live_timers :: "state \<Rightarrow> nat list" where
  "live_timers s = filter (\<lambda>i. status (timers s i) = Waiting) [0..<next_timer s]"

subsection \<open>Construction\<close>

definition init :: state where
  "init = \<lparr>status_string = '''',
           screensaverAndPowersavingType = None,
           inhibition_activated = False,
           inhibition_successful = False,
           auto_activated = False,
           screenSaverCookie = None,
           powerManagementCookie = None,
           timer = None,
           inhibit_id = None,
           note_attr = None,
           has_ssProxy = False,
           timers = (\<lambda>i. \<lparr>interval = 0, name = '''', note_arg = False, status = Cancelled\<rparr>),
           next_timer = 0,
           events = [],
           calls = [Timeout_add 10000],
           logs = [],
           toggles = 0\<rparr>"

subsection \<open>Notifications\<close>

text \<open>
  \<open>_notify\<close>: the whole body is inside \<open>try\<close> (\<open>notify_try\<close>), the handler
  logs twice, and \<open>finally: return False\<close> makes the method return normally in
  every case. While a screensaver cookie is held, the screensaver inhibition is
  released around \<open>show()\<close> through \<open>self.ssProxy\<close>, an attribute that only
  \<open>_toggleKDE\<close> assigns. \<open>Notify.init\<close> and the construction or update of the
  notification object are local and taken to return; \<open>show()\<close> may raise.
\<close>

definition notify_try :: "env \<Rightarrow> string \<Rightarrow> icon \<Rightarrow> stmt" where
  "notify_try e message icon =
     seqs [
       (\<lambda>s. case note_attr s of
               Some n \<Rightarrow> assign (\<lambda>s. s\<lparr>note_attr := Some (''Caffeine'', message, icon)\<rparr>) s
             | None \<Rightarrow> assign (\<lambda>s. s\<lparr>note_attr := Some (''Caffeine'', message, icon)\<rparr>) s),
       (\<lambda>s. case screenSaverCookie s of
               Some c \<Rightarrow>
                 if inhibition_successful s
                 then (if has_ssProxy s then remote_call e (SS_UnInhibit c) s
                       else raise (AttributeError ''ssProxy'') s)
                 else skip s
             | None \<Rightarrow> skip s),
       remote_call e (Note_show ''Caffeine'' message icon),
       (\<lambda>s. case screenSaverCookie s of
               Some c \<Rightarrow>
                 if inhibition_successful s
                 then (if has_ssProxy s
                       then inhibit_call e SS_Inhibit (\<lambda>c s. s\<lparr>screenSaverCookie := Some c\<rparr>) s
                       else raise (AttributeError ''ssProxy'') s)
                 else skip s
             | None \<Rightarrow> skip s)]"

definition notify :: "env \<Rightarrow> string \<Rightarrow> icon \<Rightarrow> stmt" where
  "notify e message icon s =
     (case notify_try e message icon s of
        (Ok, s') \<Rightarrow> (Ok, s')
      | (Raised x, s') \<Rightarrow>
          seqs [logging ERROR (''Exception occurred:'' @ [CHR 0x0A] @ '' '' @ str_exn x),
                logging ERROR (''Exception occurred attempting to display message:''
                               @ [CHR 0x0A] @ message)] s')"

subsection \<open>Backend detection and the four adapters\<close>

definition detectScreensaverAndPowersavingType :: "env \<Rightarrow> stmt" where
  "detectScreensaverAndPowersavingType e =
     seqs [
       logging DEBUG ''Attempting to detect screensaver/powersaving type...'',
       (\<lambda>s. if ''org.gnome.SessionManager'' \<in> set (bus_names e)
             then assign (\<lambda>s. s\<lparr>screensaverAndPowersavingType := Some ''Gnome3''\<rparr>) s
             else if ''org.freedesktop.ScreenSaver'' \<in> set (bus_names e) \<and>
                     ''org.freedesktop.PowerManagement.Inhibit'' \<in> set (bus_names e)
             then assign (\<lambda>s. s\<lparr>screensaverAndPowersavingType := Some ''KDE''\<rparr>) s
             else if isProcessRunning e ''xscreensaver''
             then assign (\<lambda>s. s\<lparr>screensaverAndPowersavingType := Some ''XSS+DPMS''\<rparr>) s
             else assign (\<lambda>s. s\<lparr>screensaverAndPowersavingType := Some ''DPMS''\<rparr>) s),
       (\<lambda>s. logging INFO (''Successfully detected screensaver and powersaving type: ''
                           @ str_opt (screensaverAndPowersavingType s)) s)]"

definition toggleDPMS :: stmt where
  "toggleDPMS s =
     (if inhibition_successful s
      then seqs [local_call (Shell ''xset +dpms''), local_call (Shell ''xset s on'')] s
      else seqs [local_call (Shell ''xset -dpms''), local_call (Shell ''xset s off'')] s)"

text \<open>
  \<open>_toggleXSS\<close>: the recurring action registered with \<open>timeout_add\<close> runs
  \<open>xscreensaver-command -deactivate\<close> every 50 seconds and catches its own
  exceptions; it does not touch the object.
\<close>

definition toggleXSS :: "env \<Rightarrow> stmt" where
  "toggleXSS e s =
     (if inhibition_successful s
      then (case inhibit_id s of
              Some i \<Rightarrow> local_call (Source_remove i) s
            | None \<Rightarrow> skip s)
      else seqs [local_call (Timeout_add 50000),
                 assign (\<lambda>s'. s'\<lparr>inhibit_id := Some (cookie e (length (calls s)))\<rparr>)] s)"

definition toggleXSSAndDPMS :: "env \<Rightarrow> stmt" where
  "toggleXSSAndDPMS e = seqs [toggleXSS e, toggleDPMS]"

text \<open>
  \<open>dbus.SessionBus()\<close> and \<open>bus.get_object\<close> build local proxy objects and are taken
  to return; the method calls on the proxies are remote calls, which may raise.
\<close>

definition toggleGnome3 :: "env \<Rightarrow> stmt" where
  "toggleGnome3 e =
     seqs [
       toggleDPMS,
       (\<lambda>s. if inhibition_successful s
             then (case screenSaverCookie s of
                     Some c \<Rightarrow> remote_call e (SM_Uninhibit c) s
                   | None \<Rightarrow> skip s)
             else inhibit_call e SM_Inhibit (\<lambda>c s. s\<lparr>screenSaverCookie := Some c\<rparr>) s)]"

definition toggleKDE :: "env \<Rightarrow> stmt" where
  "toggleKDE e =
     seqs [
       toggleDPMS,
       assign (\<lambda>s. s\<lparr>has_ssProxy := True\<rparr>),
       (\<lambda>s. if inhibition_successful s
             then seqs [
                    (\<lambda>s. case screenSaverCookie s of
                            Some c \<Rightarrow> remote_call e (SS_UnInhibit c) s
                          | None \<Rightarrow> skip s),
                    (\<lambda>s. case powerManagementCookie s of
                            Some c \<Rightarrow> remote_call e (PM_UnInhibit c) s
                          | None \<Rightarrow> skip s)] s
             else seqs [
                    inhibit_call e PM_Inhibit (\<lambda>c s. s\<lparr>powerManagementCookie := Some c\<rparr>),
                    inhibit_call e SS_Inhibit (\<lambda>c s. s\<lparr>screenSaverCookie := Some c\<rparr>)] s)]"

definition performTogglingActions :: "env \<Rightarrow> stmt" where
  "performTogglingActions e =
     seqs [
       detectScreensaverAndPowersavingType e,
       (\<lambda>s. if screensaverAndPowersavingType s = Some ''Gnome3'' then toggleGnome3 e s
             else if screensaverAndPowersavingType s = Some ''KDE'' then toggleKDE e s
             else if screensaverAndPowersavingType s = Some ''XSS+DPMS'' then toggleXSSAndDPMS e s
             else if screensaverAndPowersavingType s = Some ''DPMS'' then toggleDPMS s
             else skip s),
       (\<lambda>s. if \<not> inhibition_successful s
             then (case screensaverAndPowersavingType s of
                     Some t \<Rightarrow>
                       logging INFO (''Caffeine is now preventing powersaving modes''
                                     @ '' and screensaver activation ('' @ t @ '')'') s
                   | None \<Rightarrow> raise TypeError s)
             else skip s),
       assign (\<lambda>s. s\<lparr>inhibition_successful := \<not> inhibition_successful s\<rparr>)]"

subsection \<open>The toggle\<close>

text \<open>
  \<open>__toggle_activated\<close>, in two definitions: \<open>flip_activated\<close> is its first
  \<open>if\<close>/\<open>else\<close> block (the flag, and the timer when switching off), and
  \<open>toggle_activated_private\<close> the whole method. Its last statement is the
  instrumentation counter.
\<close>

definition flip_activated :: "env \<Rightarrow> bool \<Rightarrow> stmt" where
  "flip_activated e note s =
     (if inhibition_activated s
      then seqs [
        assign (\<lambda>s. s\<lparr>inhibition_activated := False\<rparr>),
        logging INFO ''Caffeine is now dormant; powersaving is re-enabled'',
        assign (\<lambda>s. s\<lparr>status_string := ''Caffeine is dormant; powersaving is enabled''\<rparr>),
        (\<lambda>s. case timer s of
                None \<Rightarrow> skip s
              | Some i \<Rightarrow>
                  if name (timers s i) \<noteq> ''Expired''
                  then seqs [
                    logging INFO (''Timed activation cancelled (was set for ''
                                  @ str_int (interval (timers s i)) @ '')''),
                    (\<lambda>s. if note
                          then notify e (''Timed activation cancelled (was set for ''
                                         @ str_int (interval (timers s i)) @ '')'')
                                 empty_cup_icon s
                          else skip s),
                    timer_cancel i,
                    assign (\<lambda>s. s\<lparr>timer := None\<rparr>)] s
                  else seqs [
                    logging INFO (''Timed activation period (''
                                  @ str_int (interval (timers s i)) @ '') has elapsed''),
                    (\<lambda>s. if note
                          then notify e (str_int (interval (timers s i))
                                         @ '' have elapsed; powersaving is re-enabled'')
                                 empty_cup_icon s
                          else skip s),
                    assign (\<lambda>s. s\<lparr>timer := None\<rparr>)] s)] s
      else assign (\<lambda>s. s\<lparr>inhibition_activated := True\<rparr>) s)"

definition toggle_activated_private :: "env \<Rightarrow> bool \<Rightarrow> stmt" where
  "toggle_activated_private e note =
     seqs [
       flip_activated e note,
       performTogglingActions e,
       (\<lambda>s. if status_string s = ''''
             then (case screensaverAndPowersavingType s of
                     Some t \<Rightarrow>
                       assign (\<lambda>s. s\<lparr>status_string :=
                         ''Caffeine is preventing powersaving modes and screensaver activation ''
                         @ ''('' @ t @ '')''\<rparr>) s
                   | None \<Rightarrow> skip s)
             else skip s),
       emit,
       assign (\<lambda>s. s\<lparr>status_string := ''''\<rparr>),
       assign (\<lambda>s. s\<lparr>toggles := Suc (toggles s)\<rparr>)]"

definition toggle_activated :: "env \<Rightarrow> bool \<Rightarrow> stmt" where
  "toggle_activated e show_notification =
     seqs [
       assign (\<lambda>s. s\<lparr>auto_activated := False\<rparr>),
       toggle_activated_private e show_notification]"

definition set_activated :: "env \<Rightarrow> bool \<Rightarrow> bool \<Rightarrow> stmt" where
  "set_activated e activate show_notification s =
     (if get_activated s \<noteq> activate then toggle_activated e show_notification s else skip s)"

text \<open>\<open>__set_activated\<close> passes \<open>activate\<close> as the \<open>note\<close> argument of the toggle.\<close>

definition set_activated_private :: "env \<Rightarrow> bool \<Rightarrow> stmt" where
  "set_activated_private e activate s =
     (if get_activated s \<noteq> activate then toggle_activated_private e activate s else skip s)"

subsection \<open>Timed activation\<close>

definition timed_activation :: "env \<Rightarrow> int \<Rightarrow> bool \<Rightarrow> stmt" where
  "timed_activation e time note =
     seqs [
       logging INFO (''Timed activation set for '' @ str_int time),
       (\<lambda>s. if status_string s = ''''
             then seqs [
               assign (\<lambda>s. s\<lparr>status_string := ''Activated for '' @ str_int time\<rparr>),
               emit] s
             else skip s),
       set_activated e True note,
       (\<lambda>s. if note
             then notify e (''Timed activation set; ''
                            @ ''Caffeine will prevent powersaving for the next ''
                            @ str_int time) full_cup_icon s
             else skip s),
       (\<lambda>s. case timer s of
               Some i \<Rightarrow>
                 seqs [
                   logging INFO (''Previous timed activation cancelled due to a ''
                                 @ ''second timed activation request (was set for ''
                                 @ str_int (interval (timers s i)) @ '' or ''
                                 @ str_int time @ '' seconds )''),
                   timer_cancel i] s
             | None \<Rightarrow> skip s),
       timer_new time note]"

text \<open>
  \<open>_deactivate\<close>, the callback of the timer. After renaming the timer it calls
  \<open>self.toggle_activated(note=note)\<close>, but the parameter of \<open>toggle_activated\<close> is
  \<open>show_notification\<close>: Python raises \<open>TypeError\<close> for the unexpected keyword
  before the body of \<open>toggle_activated\<close> runs, so the expiry of a timer toggles
  nothing.
\<close>

definition deactivate :: "bool \<Rightarrow> stmt" where
  "deactivate note s =
     (case timer s of
        None \<Rightarrow> raise (AttributeError ''name'') s
      | Some i \<Rightarrow>
          seqs [
            assign (\<lambda>s. s\<lparr>timers := (timers s)(i := (timers s i)\<lparr>name := ''Expired''\<rparr>)\<rparr>),
            raise TypeError] s)"

definition quit :: stmt where
  "quit s = (case timer s of Some i \<Rightarrow> timer_cancel i s | None \<Rightarrow> skip s)"

subsection \<open>The auto-activation monitor\<close>

text \<open>The loop over the whitelist: it sets \<open>process_running\<close> and logs.\<close>

fun scan_processes :: "env \<Rightarrow> string list \<Rightarrow> bool \<times> state \<Rightarrow> bool \<times> state" where
  "scan_processes e [] (process_running, s) = (process_running, s)"
| "scan_processes e (proc # procs) (process_running, s) =
     (if isProcessRunning e proc
      then scan_processes e procs
             (True,
              if auto_activated s
              then log_line INFO (''Process '' @ proc @ '' detected but was already ''
                                  @ ''auto-activated'') s
              else if \<not> get_activated s
              then log_line INFO (''Process '' @ proc @ '' detected. Inhibiting.'') s
              else s)
      else scan_processes e procs (process_running, s))"

text \<open>The truth value of \<open>fullscreen\<close>: \<open>None\<close> and the empty list are false.\<close>

definition fullscreen :: "env \<Rightarrow> bool" where
  "fullscreen e =
     (case active_window e of
        None \<Rightarrow> False
      | Some None \<Rightarrow> False
      | Some (Some st) \<Rightarrow> st \<noteq> [] \<and> ''_NET_WM_STATE_FULLSCREEN'' \<in> set st)"

definition log_fullscreen :: "env \<Rightarrow> state \<Rightarrow> state" where
  "log_fullscreen e s =
     (if fullscreen e
      then (if auto_activated s
            then log_line DEBUG (''Fullscreen app detected, but was already ''
                                 @ ''auto-activated'') s
            else if \<not> get_activated s
            then log_line INFO ''Fullscreen app detected. Inhibiting.'' s
            else s)
      else s)"

text \<open>The two branches of the final \<open>if\<close>/\<open>elif\<close> of the monitor.\<close>

definition deactivation_branch :: "env \<Rightarrow> stmt" where
  "deactivation_branch e =
     seqs [
       logging INFO (''Was auto-inhibited, but there'' @ [CHR 0x27] @ ''s no fullscreen or ''
                     @ ''whitelisted process now. De-activating.''),
       assign (\<lambda>s. s\<lparr>auto_activated := False\<rparr>),
       set_activated_private e False]"

definition activation_branch :: "env \<Rightarrow> stmt" where
  "activation_branch e =
     seqs [
       assign (\<lambda>s. s\<lparr>auto_activated := True\<rparr>),
       set_activated_private e True]"

definition attempt_autoactivation :: "env \<Rightarrow> stmt" where
  "attempt_autoactivation e s =
     (if get_activated s \<and> \<not> auto_activated s
      then logging DEBUG (''Inhibition manually activated. Won'' @ [CHR 0x27] @ ''t attempt to ''
                          @ ''auto-activate'') s
      else
        (case scan_processes e (process_list e) (False, s) of
           (process_running, s1) \<Rightarrow>
             (let s2 = log_fullscreen e s1 in
              if \<not> process_running \<and> \<not> fullscreen e \<and> auto_activated s2
              then deactivation_branch e s2
              else if process_running \<or> fullscreen e \<and> \<not> auto_activated s2
              then activation_branch e s2
              else skip s2)))"

subsection \<open>Runs\<close>

text \<open>
  What can happen to the object: a call of a public method, a tick of the monitor, or
  a timer firing. A timer fires only while it is waiting. The main loop survives an
  exception of a callback and the object outlives a timer thread that an exception
  ends, so a run goes on after \<open>Raised\<close>.
\<close>

datatype op =
    Set_activated bool bool
  | Toggle_activated bool
  | Timed_activation int bool
  | Attempt_autoactivation
  | Timer_fires nat
  | Quit

definition timer_fires :: "env \<Rightarrow> nat \<Rightarrow> stmt" where
  "timer_fires e i s =
     (if i < next_timer s \<and> status (timers s i) = Waiting
      then seqs [
             assign (\<lambda>s. s\<lparr>timers := (timers s)(i := (timers s i)\<lparr>status := Fired\<rparr>)\<rparr>),
             deactivate (note_arg (timers s i))] s
      else skip s)"

fun step :: "env \<Rightarrow> op \<Rightarrow> stmt" where
  "step e (Set_activated activate show_notification) = set_activated e activate show_notification"
| "step e (Toggle_activated show_notification) = toggle_activated e show_notification"
| "step e (Timed_activation time note) = timed_activation e time note"
| "step e Attempt_autoactivation = attempt_autoactivation e"
| "step e (Timer_fires i) = timer_fires e i"
| "step e Quit = quit"

fun run :: "(env \<times> op) list \<Rightarrow> state \<Rightarrow> state" where
  "run [] s = s"
| "run ((e, p) # ps) s = run ps (snd (step e p s))"

section \<open>Definitions for the statements and the proofs\<close>

subsection \<open>Names for parts of the methods\<close>

text \<open>
  \<open>detected e\<close> is the backend that the detection selects in the environment
  \<open>e\<close>; \<open>dispatch\<close> and \<open>log_preventing\<close> name the second and third statement of
  \<open>_performTogglingActions\<close>; \<open>toggle_message e s\<close> is the status message that a
  toggle started in state \<open>s\<close> hands to the signal; \<open>reenable_dpms\<close> is the effect
  of \<open>_toggleDPMS\<close> in the releasing direction.
\<close>

definition detected :: "env \<Rightarrow> string" where
  "detected e =
     (if ''org.gnome.SessionManager'' \<in> set (bus_names e) then ''Gnome3''
      else if ''org.freedesktop.ScreenSaver'' \<in> set (bus_names e) \<and>
              ''org.freedesktop.PowerManagement.Inhibit'' \<in> set (bus_names e) then ''KDE''
      else if isProcessRunning e ''xscreensaver'' then ''XSS+DPMS''
      else ''DPMS'')"

definition dispatch :: "env \<Rightarrow> stmt" where
  "dispatch e = (\<lambda>s. if screensaverAndPowersavingType s = Some ''Gnome3'' then toggleGnome3 e s
             else if screensaverAndPowersavingType s = Some ''KDE'' then toggleKDE e s
             else if screensaverAndPowersavingType s = Some ''XSS+DPMS'' then toggleXSSAndDPMS e s
             else if screensaverAndPowersavingType s = Some ''DPMS'' then toggleDPMS s
             else skip s)"

definition log_preventing :: stmt where
  "log_preventing = (\<lambda>s. if \<not> inhibition_successful s
             then (case screensaverAndPowersavingType s of
                     Some t \<Rightarrow>
                       logging INFO (''Caffeine is now preventing powersaving modes''
                                     @ '' and screensaver activation ('' @ t @ '')'') s
                   | None \<Rightarrow> raise TypeError s)
             else skip s)"

definition toggle_message :: "env \<Rightarrow> state \<Rightarrow> string" where
  "toggle_message e s =
     (if inhibition_activated s then ''Caffeine is dormant; powersaving is enabled''
      else if status_string s = ''''
      then ''Caffeine is preventing powersaving modes and screensaver activation ''
           @ ''('' @ detected e @ '')''
      else status_string s)"

definition reenable_dpms :: "state \<Rightarrow> state" where
  "reenable_dpms s = s\<lparr>calls := calls s @ [Shell ''xset +dpms'', Shell ''xset s on'']\<rparr>"

text \<open>
  \<open>call_outcome e r\<close>: the outcome \<open>r\<close> is a normal return or the exception of a
  remote call that fails in \<open>e\<close>.
\<close>

definition call_outcome :: "env \<Rightarrow> outcome \<Rightarrow> bool" where
  "call_outcome e r = (case r of Ok \<Rightarrow> True | Raised x \<Rightarrow>
     (case x of CallFailed c \<Rightarrow> (\<exists>k. fails e k c) | _ \<Rightarrow> False))"

text \<open>
  The monitor: \<open>monitor_logs e s\<close> is the state after the log records that a tick
  writes before its final \<open>if\<close>/\<open>elif\<close>.
\<close>

definition monitor_logs :: "env \<Rightarrow> state \<Rightarrow> state" where
  "monitor_logs e s = log_fullscreen e (snd (scan_processes e (process_list e) (False, s)))"

text \<open>
  Timed activation: \<open>announce time s\<close> is the state after the first two statements of
  \<open>timed_activation\<close> (the log record, and the signal of lines 182 to 185 when the
  status string is empty), \<open>timed_rest\<close> the remaining statements,
  \<open>superseded_message\<close> the log record of a second request, and \<open>cancelled\<close> a
  timer object after \<open>cancel()\<close>.
\<close>

definition announce :: "int \<Rightarrow> state \<Rightarrow> state" where
  "announce time s =
     (if status_string s = []
      then s\<lparr>logs := logs s @ [(INFO, ''Timed activation set for '' @ str_int time)],
             status_string := ''Activated for '' @ str_int time,
             events := events s @ [(inhibition_activated s, ''Activated for '' @ str_int time)]\<rparr>
      else s\<lparr>logs := logs s @ [(INFO, ''Timed activation set for '' @ str_int time)]\<rparr>)"

definition timed_rest :: "env \<Rightarrow> int \<Rightarrow> bool \<Rightarrow> stmt list" where
  "timed_rest e time note =
     [set_activated e True note,
      (\<lambda>s. if note
            then notify e (''Timed activation set; ''
                           @ ''Caffeine will prevent powersaving for the next ''
                           @ str_int time) full_cup_icon s
            else skip s),
      (\<lambda>s. case timer s of
              Some i \<Rightarrow>
                seqs [
                  logging INFO (''Previous timed activation cancelled due to a ''
                                @ ''second timed activation request (was set for ''
                                @ str_int (interval (timers s i)) @ '' or ''
                                @ str_int time @ '' seconds )''),
                  timer_cancel i] s
            | None \<Rightarrow> skip s),
      timer_new time note]"

definition superseded_message :: "int \<Rightarrow> int \<Rightarrow> string" where
  "superseded_message old new =
     ''Previous timed activation cancelled due to a ''
     @ ''second timed activation request (was set for ''
     @ str_int old @ '' or '' @ str_int new @ '' seconds )''"

definition cancelled :: "tm \<Rightarrow> tm" where
  "cancelled t = t\<lparr>status := (if status t = Waiting then Cancelled else status t)\<rparr>"

subsection \<open>Counting over a run\<close>

text \<open>
  \<open>announces p s\<close> is 1 when the operation \<open>p\<close> is a timed activation entered with
  an empty status string (lines 182 to 185 then emit a signal of their own),
  \<open>announcements\<close> counts them over a run, \<open>surplus\<close> is the number of signals
  emitted beyond the number of toggles completed, \<open>mirrored\<close> says that the two flags
  agree, and \<open>run_ok\<close> that every operation of the run returned normally.
\<close>

fun announces :: "op \<Rightarrow> state \<Rightarrow> nat" where
  "announces (Timed_activation time note) s = (if status_string s = [] then 1 else 0)"
| "announces (Set_activated activate show_notification) s = 0"
| "announces (Toggle_activated show_notification) s = 0"
| "announces Attempt_autoactivation s = 0"
| "announces (Timer_fires i) s = 0"
| "announces Quit s = 0"

fun announcements :: "(env \<times> op) list \<Rightarrow> state \<Rightarrow> nat" where
  "announcements [] s = 0"
| "announcements ((e, p) # ps) s = announces p s + announcements ps (snd (step e p s))"

fun run_ok :: "(env \<times> op) list \<Rightarrow> state \<Rightarrow> bool" where
  "run_ok [] s = True"
| "run_ok ((e, p) # ps) s = (fst (step e p s) = Ok \<and> run_ok ps (snd (step e p s)))"

definition surplus :: "state \<Rightarrow> int" where
  "surplus s = int (length (events s)) - int (toggles s)"

definition mirrored :: "state \<Rightarrow> bool" where
  "mirrored s = (inhibition_successful s = inhibition_activated s)"

subsection \<open>Sample environments and states\<close>

text \<open>
  A session with the Gnome session manager on the bus and no call failing; the same
  with the session manager's \<open>Inhibit\<close> raising; a session with nothing but X11
  (detected as DPMS); a session with the two freedesktop services (detected as KDE); a
  session in which a whitelisted process runs and the active window is fullscreen;
  and the state after the first toggle in the X11-only session.
\<close>

definition env_gnome :: env where
  "env_gnome = \<lparr>bus_names = [''org.gnome.SessionManager''],
                isProcessRunning = (\<lambda>p. False),
                process_list = [],
                active_window = None,
                fails = (\<lambda>k c. False),
                cookie = (\<lambda>k. 7)\<rparr>"

definition env_gnome_failing :: env where
  "env_gnome_failing = env_gnome\<lparr>fails := (\<lambda>k c. c = SM_Inhibit)\<rparr>"

definition env_bare :: env where
  "env_bare = env_gnome\<lparr>bus_names := []\<rparr>"

definition env_kde :: env where
  "env_kde = env_gnome\<lparr>bus_names := [''org.freedesktop.ScreenSaver'',
                                        ''org.freedesktop.PowerManagement.Inhibit'']\<rparr>"

definition env_busy :: env where
  "env_busy = \<lparr>bus_names = [],
               isProcessRunning = (\<lambda>p. p = ''vlc''),
               process_list = [''mplayer'', ''vlc''],
               active_window = Some (Some [''_NET_WM_STATE_FULLSCREEN'']),
               fails = (\<lambda>k c. False),
               cookie = (\<lambda>k. 7)\<rparr>"

definition dpms_active :: state where
  "dpms_active = snd (toggle_activated env_bare True init)"

subsection \<open>Handles and their release calls\<close>

text \<open>
  The object holds three handles of an inhibition in force: the screensaver cookie
  (issued by the Gnome session manager or by the freedesktop screensaver service),
  the power management cookie, and the id of the recurring action of the
  XScreenSaver adapter. \<open>absent h s\<close> says that the attribute of handle \<open>h\<close> is
  \<open>None\<close> in \<open>s\<close>; \<open>releases h c\<close> that the external call \<open>c\<close> gives up a handle
  of kind \<open>h\<close>; and \<open>quiet h s t\<close> that \<open>t\<close> extends the calls made up to \<open>s\<close> by
  calls none of which releases \<open>h\<close>.
\<close>

datatype handle = ScreenSaver | PowerManagement | KeepAlive

fun absent :: "handle \<Rightarrow> state \<Rightarrow> bool" where
  "absent ScreenSaver s = (screenSaverCookie s = None)"
| "absent PowerManagement s = (powerManagementCookie s = None)"
| "absent KeepAlive s = (inhibit_id s = None)"

fun releases :: "handle \<Rightarrow> ext_call \<Rightarrow> bool" where
  "releases ScreenSaver (SM_Uninhibit c) = True"
| "releases ScreenSaver (SS_UnInhibit c) = True"
| "releases PowerManagement (PM_UnInhibit c) = True"
| "releases KeepAlive (Source_remove i) = True"
| "releases h c = False"

definition quiet :: "handle \<Rightarrow> state \<Rightarrow> state \<Rightarrow> bool" where
  "quiet h s t = (\<exists>new. calls t = calls s @ new \<and> filter (releases h) new = [])"

section \<open>Auxiliary lemmas\<close>

declare seqs.simps [simp del]

lemma seqs_Nil [simp]: "seqs [] s = (Ok, s)"
  by (simp add: seqs.simps)

lemma seqs_Cons_Ok: "f s = (Ok, s') \<Longrightarrow> seqs (f # fs) s = seqs fs s'"
  by (simp add: seqs.simps)

lemma seqs_Cons_Raised: "f s = (Raised x, s') \<Longrightarrow> seqs (f # fs) s = (Raised x, s')"
  by (simp add: seqs.simps)

lemma seqs_assign [simp]: "seqs (assign g # fs) s = seqs fs (g s)"
  by (simp add: seqs.simps assign_def)

lemma seqs_logging [simp]: "seqs (logging l m # fs) s = seqs fs (log_line l m s)"
  by (simp add: seqs.simps logging_def)

lemma seqs_local_call [simp]: "seqs (local_call c # fs) s = seqs fs (s\<lparr>calls := calls s @ [c]\<rparr>)"
  by (simp add: seqs.simps local_call_def)

lemma seqs_emit [simp]:
  "seqs (emit # fs) s = seqs fs (s\<lparr>events := events s @ [(inhibition_activated s, status_string s)]\<rparr>)"
  by (simp add: seqs.simps emit_def get_activated_def)

lemma seqs_inv:
  assumes "\<And>f s. f \<in> set fs \<Longrightarrow> I s \<Longrightarrow> I (snd (f s))" and "I s"
  shows "I (snd (seqs fs s))"
  using assms
proof (induction fs arbitrary: s)
  case Nil
  then show ?case by simp
next
  case (Cons f fs)
  obtain r s' where fs: "f s = (r, s')" by (cases "f s")
  have I': "I s'" using Cons.prems(1)[of f s] Cons.prems(2) fs by simp
  show ?case
  proof (cases r)
    case Ok
    have "I (snd (seqs fs s'))"
      by (rule Cons.IH) (use Cons.prems(1) I' in auto)
    then show ?thesis using fs Ok by (simp add: seqs_Cons_Ok)
  next
    case (Raised x)
    then show ?thesis using fs I' by (simp add: seqs_Cons_Raised)
  qed
qed

lemma seqs_ok:
  assumes "\<And>f s. f \<in> set fs \<Longrightarrow> fst (f s) = Ok"
  shows "fst (seqs fs s) = Ok"
  using assms
proof (induction fs arbitrary: s)
  case Nil
  then show ?case by simp
next
  case (Cons f fs)
  obtain r s' where fs: "f s = (r, s')" by (cases "f s")
  have "r = Ok" using Cons.prems[of f s] fs by simp
  moreover have "fst (seqs fs s') = Ok" by (rule Cons.IH) (use Cons.prems in auto)
  ultimately show ?case using fs by (simp add: seqs_Cons_Ok)
qed

lemma fst_assign [simp]: "fst (assign f s) = Ok" and snd_assign [simp]: "snd (assign f s) = f s"
  by (simp_all add: assign_def)
lemma fst_skip [simp]: "fst (skip s) = Ok" and snd_skip [simp]: "snd (skip s) = s"
  by (simp_all add: skip_def)
lemma fst_logging [simp]: "fst (logging l m s) = Ok"
  and snd_logging [simp]: "snd (logging l m s) = log_line l m s"
  by (simp_all add: logging_def)
lemma fst_local_call [simp]: "fst (local_call c s) = Ok"
  and snd_local_call [simp]: "snd (local_call c s) = s\<lparr>calls := calls s @ [c]\<rparr>"
  by (simp_all add: local_call_def)
lemma snd_remote_call [simp]: "snd (remote_call e c s) = s\<lparr>calls := calls s @ [c]\<rparr>"
  by (simp add: remote_call_def)
lemma snd_raise [simp]: "snd (raise x s) = s"
  by (simp add: raise_def)
lemma snd_inhibit_call:
  "snd (inhibit_call e c store s) =
     (if fails e (length (calls s)) c then s\<lparr>calls := calls s @ [c]\<rparr>
      else store (cookie e (length (calls s))) (s\<lparr>calls := calls s @ [c]\<rparr>))"
  by (simp add: inhibit_call_def remote_call_def)
lemma fst_emit [simp]: "fst (emit s) = Ok"
  and snd_emit [simp]: "snd (emit s) = s\<lparr>events := events s @ [(inhibition_activated s, status_string s)]\<rparr>"
  by (simp_all add: emit_def get_activated_def)

text \<open>notify changes only calls, logs, note_attr and screenSaverCookie, and returns.\<close>

lemma notify_try_inv:
  assumes c: "\<And>v s. I s \<Longrightarrow> I (s\<lparr>calls := v\<rparr>)"
    and n: "\<And>v s. I s \<Longrightarrow> I (s\<lparr>note_attr := v\<rparr>)"
    and k: "\<And>v s. I s \<Longrightarrow> I (s\<lparr>screenSaverCookie := v\<rparr>)"
    and "I s"
  shows "I (snd (notify_try e m i s))"
  unfolding notify_try_def
proof (rule seqs_inv[where I = I])
  fix f t
  assume "f \<in> set [
       (\<lambda>s. case note_attr s of
               Some n \<Rightarrow> assign (\<lambda>s. s\<lparr>note_attr := Some (''Caffeine'', m, i)\<rparr>) s
             | None \<Rightarrow> assign (\<lambda>s. s\<lparr>note_attr := Some (''Caffeine'', m, i)\<rparr>) s),
       (\<lambda>s. case screenSaverCookie s of
               Some c \<Rightarrow>
                 if inhibition_successful s
                 then (if has_ssProxy s then remote_call e (SS_UnInhibit c) s
                       else raise (AttributeError ''ssProxy'') s)
                 else skip s
             | None \<Rightarrow> skip s),
       remote_call e (Note_show ''Caffeine'' m i),
       (\<lambda>s. case screenSaverCookie s of
               Some c \<Rightarrow>
                 if inhibition_successful s
                 then (if has_ssProxy s
                       then inhibit_call e SS_Inhibit (\<lambda>c s. s\<lparr>screenSaverCookie := Some c\<rparr>) s
                       else raise (AttributeError ''ssProxy'') s)
                 else skip s
             | None \<Rightarrow> skip s)]" and "I t"
  then show "I (snd (f t))"
    by (auto simp: snd_inhibit_call c n k split: option.splits)
qed (rule assms)

lemma notify_inv:
  assumes c: "\<And>v s. I s \<Longrightarrow> I (s\<lparr>calls := v\<rparr>)"
    and l: "\<And>v s. I s \<Longrightarrow> I (s\<lparr>logs := v\<rparr>)"
    and n: "\<And>v s. I s \<Longrightarrow> I (s\<lparr>note_attr := v\<rparr>)"
    and k: "\<And>v s. I s \<Longrightarrow> I (s\<lparr>screenSaverCookie := v\<rparr>)"
    and "I s"
  shows "I (snd (notify e m i s))"
proof -
  obtain r s' where b: "notify_try e m i s = (r, s')" by (cases "notify_try e m i s")
  have "I (snd (notify_try e m i s))"
    by (rule notify_try_inv[where I = I]) (simp_all add: assms)
  then have I': "I s'" using b by simp
  show ?thesis
  proof (cases r)
    case Ok
    then show ?thesis using b I' by (simp add: notify_def)
  next
    case (Raised x)
    then show ?thesis using b I' by (simp add: notify_def log_line_def l)
  qed
qed

lemma notify_ok [simp]: "fst (notify e m i s) = Ok"
proof -
  obtain r s' where b: "notify_try e m i s = (r, s')" by (cases "notify_try e m i s")
  show ?thesis by (cases r) (simp_all add: notify_def b)
qed

lemma notify_frame:
  assumes "\<And>v t. P (t\<lparr>calls := v\<rparr>) = P t"
    and "\<And>v t. P (t\<lparr>logs := v\<rparr>) = P t"
    and "\<And>v t. P (t\<lparr>note_attr := v\<rparr>) = P t"
    and "\<And>v t. P (t\<lparr>screenSaverCookie := v\<rparr>) = P t"
  shows "P (snd (notify e m i s)) = P s"
  by (rule notify_inv[where I = "\<lambda>t. P t = P s"]) (simp_all add: assms)

lemma notify_fields [simp]:
  "inhibition_activated (snd (notify e m i s)) = inhibition_activated s"
  "inhibition_successful (snd (notify e m i s)) = inhibition_successful s"
  "auto_activated (snd (notify e m i s)) = auto_activated s"
  "events (snd (notify e m i s)) = events s"
  "toggles (snd (notify e m i s)) = toggles s"
  "timers (snd (notify e m i s)) = timers s"
  "timer (snd (notify e m i s)) = timer s"
  "next_timer (snd (notify e m i s)) = next_timer s"
  "status_string (snd (notify e m i s)) = status_string s"
  "screensaverAndPowersavingType (snd (notify e m i s)) = screensaverAndPowersavingType s"
  "powerManagementCookie (snd (notify e m i s)) = powerManagementCookie s"
  "inhibit_id (snd (notify e m i s)) = inhibit_id s"
  by (rule notify_frame; simp)+

lemma seqs_snoc:
  "seqs (fs @ [g]) s =
     (case seqs fs s of (Ok, s') \<Rightarrow> g s' | (Raised x, s') \<Rightarrow> (Raised x, s'))"
proof (induction fs arbitrary: s)
  case Nil
  show ?case by (cases "g s"; cases "fst (g s)") (auto simp: seqs.simps)
next
  case (Cons f fs)
  obtain r s' where fs: "f s = (r, s')" by (cases "f s")
  show ?case
    by (cases r) (simp_all add: fs seqs_Cons_Ok seqs_Cons_Raised Cons.IH)
qed

text \<open>The adapters change only calls, has_ssProxy, the cookies and inhibit_id.\<close>

lemma toggleDPMS_eq:
  "toggleDPMS s =
     (Ok, s\<lparr>calls := calls s @ (if inhibition_successful s
                                  then [Shell ''xset +dpms'', Shell ''xset s on'']
                                  else [Shell ''xset -dpms'', Shell ''xset s off''])\<rparr>)"
  by (simp add: toggleDPMS_def)

lemma adapters_frame:
  assumes "\<And>v t. P (t\<lparr>calls := v\<rparr>) = P t"
    and "\<And>v t. P (t\<lparr>has_ssProxy := v\<rparr>) = P t"
    and "\<And>v t. P (t\<lparr>screenSaverCookie := v\<rparr>) = P t"
    and "\<And>v t. P (t\<lparr>powerManagementCookie := v\<rparr>) = P t"
    and "\<And>v t. P (t\<lparr>inhibit_id := v\<rparr>) = P t"
  shows "P (snd (toggleDPMS s)) = P s"
    and "P (snd (toggleXSS e s)) = P s"
    and "P (snd (toggleXSSAndDPMS e s)) = P s"
    and "P (snd (toggleGnome3 e s)) = P s"
    and "P (snd (toggleKDE e s)) = P s"
proof -
  show d: "P (snd (toggleDPMS s)) = P s" for s
    by (simp add: toggleDPMS_eq assms)
  show x: "P (snd (toggleXSS e s)) = P s" for s
    by (simp add: toggleXSS_def assms split: option.splits)
  show "P (snd (toggleXSSAndDPMS e s)) = P s"
    unfolding toggleXSSAndDPMS_def
    by (rule seqs_inv[where I = "\<lambda>t. P t = P s"]) (auto simp: d x)
  show "P (snd (toggleGnome3 e s)) = P s"
    unfolding toggleGnome3_def
    by (rule seqs_inv[where I = "\<lambda>t. P t = P s"])
       (auto simp: d snd_inhibit_call assms split: option.splits)
  have k: "P (snd (seqs [
                    (\<lambda>s. case screenSaverCookie s of
                            Some c \<Rightarrow> remote_call e (SS_UnInhibit c) s
                          | None \<Rightarrow> skip s),
                    (\<lambda>s. case powerManagementCookie s of
                            Some c \<Rightarrow> remote_call e (PM_UnInhibit c) s
                          | None \<Rightarrow> skip s)] t)) = P t" for t
    by (rule seqs_inv[where I = "\<lambda>u. P u = P t"]) (auto simp: assms split: option.splits)
  have k': "P (snd (seqs [
                    inhibit_call e PM_Inhibit (\<lambda>c s. s\<lparr>powerManagementCookie := Some c\<rparr>),
                    inhibit_call e SS_Inhibit (\<lambda>c s. s\<lparr>screenSaverCookie := Some c\<rparr>)] t)) = P t" for t
    by (rule seqs_inv[where I = "\<lambda>u. P u = P t"]) (auto simp: snd_inhibit_call assms)
  show "P (snd (toggleKDE e s)) = P s"
    unfolding toggleKDE_def
    by (rule seqs_inv[where I = "\<lambda>t. P t = P s"]) (auto simp: d k k' assms)
qed

lemma detect_eq:
  "detectScreensaverAndPowersavingType e s =
     (Ok, s\<lparr>screensaverAndPowersavingType := Some (detected e),
            logs := logs s @ [(DEBUG, ''Attempting to detect screensaver/powersaving type...''),
                             (INFO, ''Successfully detected screensaver and powersaving type: ''
                                    @ detected e)]\<rparr>)"
  unfolding detectScreensaverAndPowersavingType_def detected_def
  by (simp add: seqs.simps assign_def logging_def log_line_def str_opt_def)

lemma perform_unfold:
  "performTogglingActions e =
     seqs [detectScreensaverAndPowersavingType e, dispatch e, log_preventing,
           assign (\<lambda>s. s\<lparr>inhibition_successful := \<not> inhibition_successful s\<rparr>)]"
  by (simp add: performTogglingActions_def dispatch_def log_preventing_def)

lemma perform_split:
  "performTogglingActions e s =
     (case seqs [detectScreensaverAndPowersavingType e, dispatch e, log_preventing] s of
        (Ok, s') \<Rightarrow> (Ok, s'\<lparr>inhibition_successful := \<not> inhibition_successful s'\<rparr>)
      | (Raised x, s') \<Rightarrow> (Raised x, s'))"
  using seqs_snoc[of "[detectScreensaverAndPowersavingType e, dispatch e, log_preventing]"
      "assign (\<lambda>s. s\<lparr>inhibition_successful := \<not> inhibition_successful s\<rparr>)" s]
  by (simp add: perform_unfold assign_def split: prod.splits outcome.splits)

lemma perform_body_frame:
  assumes "\<And>v t. P (t\<lparr>calls := v\<rparr>) = P t"
    and "\<And>v t. P (t\<lparr>has_ssProxy := v\<rparr>) = P t"
    and "\<And>v t. P (t\<lparr>screenSaverCookie := v\<rparr>) = P t"
    and "\<And>v t. P (t\<lparr>powerManagementCookie := v\<rparr>) = P t"
    and "\<And>v t. P (t\<lparr>inhibit_id := v\<rparr>) = P t"
    and "\<And>v t. P (t\<lparr>logs := v\<rparr>) = P t"
    and "\<And>v t. P (t\<lparr>screensaverAndPowersavingType := v\<rparr>) = P t"
  shows "P (snd (seqs [detectScreensaverAndPowersavingType e, dispatch e, log_preventing] s)) = P s"
proof (rule seqs_inv[where I = "\<lambda>t. P t = P s"])
  fix f t
  assume f: "f \<in> set [detectScreensaverAndPowersavingType e, dispatch e, log_preventing]"
    and t: "P t = P s"
  have d: "P (snd (dispatch e t)) = P t"
    unfolding dispatch_def
    by (simp add: adapters_frame[where P = P] assms)
  have l: "P (snd (log_preventing t)) = P t"
    by (simp add: log_preventing_def log_line_def assms split: option.splits)
  have a: "P (snd (detectScreensaverAndPowersavingType e t)) = P t"
    by (simp add: detect_eq assms)
  from f t d l a show "P (snd (f t)) = P s" by auto
qed simp

lemma perform_frame:
  assumes "\<And>v t. P (t\<lparr>calls := v\<rparr>) = P t"
    and "\<And>v t. P (t\<lparr>has_ssProxy := v\<rparr>) = P t"
    and "\<And>v t. P (t\<lparr>screenSaverCookie := v\<rparr>) = P t"
    and "\<And>v t. P (t\<lparr>powerManagementCookie := v\<rparr>) = P t"
    and "\<And>v t. P (t\<lparr>inhibit_id := v\<rparr>) = P t"
    and "\<And>v t. P (t\<lparr>logs := v\<rparr>) = P t"
    and "\<And>v t. P (t\<lparr>screensaverAndPowersavingType := v\<rparr>) = P t"
    and "\<And>v t. P (t\<lparr>inhibition_successful := v\<rparr>) = P t"
  shows "P (snd (performTogglingActions e s)) = P s"
proof -
  let ?b = "seqs [detectScreensaverAndPowersavingType e, dispatch e, log_preventing] s"
  obtain r s' where b: "?b = (r, s')" by (cases ?b)
  have "P (snd ?b) = P s" by (rule perform_body_frame) (simp_all add: assms)
  then have "P s' = P s" using b by simp
  then show ?thesis
    by (cases r) (simp_all add: perform_split b assms)
qed

lemma perform_successful:
  "inhibition_successful (snd (performTogglingActions e s)) =
     (if fst (performTogglingActions e s) = Ok then \<not> inhibition_successful s
      else inhibition_successful s)"
proof -
  let ?b = "seqs [detectScreensaverAndPowersavingType e, dispatch e, log_preventing] s"
  obtain r s' where b: "?b = (r, s')" by (cases ?b)
  have "inhibition_successful (snd ?b) = inhibition_successful s"
    by (rule perform_body_frame) simp_all
  then have "inhibition_successful s' = inhibition_successful s" using b by simp
  then show ?thesis
    by (cases r) (simp_all add: perform_split b)
qed

lemma perform_type:
  "screensaverAndPowersavingType (snd (performTogglingActions e s)) = Some (detected e)"
proof -
  let ?s1 = "snd (detectScreensaverAndPowersavingType e s)"
  let ?rest = "[dispatch e, log_preventing,
                assign (\<lambda>s. s\<lparr>inhibition_successful := \<not> inhibition_successful s\<rparr>)]"
  have 1: "performTogglingActions e s = seqs ?rest ?s1"
    by (simp add: perform_unfold detect_eq seqs_Cons_Ok)
  have "screensaverAndPowersavingType (snd (seqs ?rest ?s1)) = screensaverAndPowersavingType ?s1"
  proof (rule seqs_inv[where I = "\<lambda>t. screensaverAndPowersavingType t = screensaverAndPowersavingType ?s1"])
    fix f and t :: state
    assume f: "f \<in> set ?rest"
      and t: "screensaverAndPowersavingType t = screensaverAndPowersavingType ?s1"
    have d: "screensaverAndPowersavingType (snd (dispatch e t)) = screensaverAndPowersavingType t"
      unfolding dispatch_def
      by (simp add: adapters_frame[where P = screensaverAndPowersavingType])
    have l: "screensaverAndPowersavingType (snd (log_preventing t)) = screensaverAndPowersavingType t"
      by (simp add: log_preventing_def log_line_def split: option.splits)
    from f t d l
    show "screensaverAndPowersavingType (snd (f t)) = screensaverAndPowersavingType ?s1"
      by auto
  qed simp
  then show ?thesis by (simp add: 1 detect_eq)
qed

lemma seqs_Cons_fst_Ok: "fst (f s) = Ok \<Longrightarrow> seqs (f # fs) s = seqs fs (snd (f s))"
  by (cases "f s") (simp add: seqs_Cons_Ok)

lemma seqs_timer_cancel [simp]:
  "seqs (timer_cancel i # fs) s = seqs fs (snd (timer_cancel i s))"
  by (simp add: seqs_Cons_fst_Ok timer_cancel_def)

lemma flip_on:
  "\<not> inhibition_activated s \<Longrightarrow> flip_activated e n s = (Ok, s\<lparr>inhibition_activated := True\<rparr>)"
  by (simp add: flip_activated_def assign_def)

lemma flip_off:
  "inhibition_activated s \<Longrightarrow>
   fst (flip_activated e n s) = Ok \<and>
   inhibition_activated (snd (flip_activated e n s)) = False \<and>
   status_string (snd (flip_activated e n s)) = ''Caffeine is dormant; powersaving is enabled'' \<and>
   timer (snd (flip_activated e n s)) = None \<and>
   events (snd (flip_activated e n s)) = events s \<and>
   inhibition_successful (snd (flip_activated e n s)) = inhibition_successful s \<and>
   auto_activated (snd (flip_activated e n s)) = auto_activated s \<and>
   toggles (snd (flip_activated e n s)) = toggles s \<and>
   next_timer (snd (flip_activated e n s)) = next_timer s"
  by (simp add: flip_activated_def seqs_Cons_fst_Ok timer_cancel_def log_line_def
      split: option.splits)

lemma flip_ok [simp]: "fst (flip_activated e n s) = Ok"
  by (cases "inhibition_activated s") (simp_all add: flip_on flip_off)

lemma flip_fields:
  "inhibition_activated (snd (flip_activated e n s)) = (\<not> inhibition_activated s)"
  "events (snd (flip_activated e n s)) = events s"
  "inhibition_successful (snd (flip_activated e n s)) = inhibition_successful s"
  "auto_activated (snd (flip_activated e n s)) = auto_activated s"
  "toggles (snd (flip_activated e n s)) = toggles s"
  "next_timer (snd (flip_activated e n s)) = next_timer s"
  "status_string (snd (flip_activated e n s)) =
     (if inhibition_activated s then ''Caffeine is dormant; powersaving is enabled''
      else status_string s)"
  by (cases "inhibition_activated s"; simp add: flip_on flip_off)+

lemma perform_fields:
  "inhibition_activated (snd (performTogglingActions e s)) = inhibition_activated s"
  "events (snd (performTogglingActions e s)) = events s"
  "auto_activated (snd (performTogglingActions e s)) = auto_activated s"
  "toggles (snd (performTogglingActions e s)) = toggles s"
  "next_timer (snd (performTogglingActions e s)) = next_timer s"
  "timers (snd (performTogglingActions e s)) = timers s"
  "timer (snd (performTogglingActions e s)) = timer s"
  "status_string (snd (performTogglingActions e s)) = status_string s"
  by (rule perform_frame; simp)+

lemma toggle_private_split:
  "toggle_activated_private e n s =
     (case performTogglingActions e (snd (flip_activated e n s)) of
        (Ok, s2) \<Rightarrow>
          (Ok, s2\<lparr>events := events s2 @
                   [(inhibition_activated s2,
                     if status_string s2 = ''''
                     then ''Caffeine is preventing powersaving modes and screensaver activation ''
                          @ ''('' @ detected e @ '')''
                     else status_string s2)],
                 status_string := '''',
                 toggles := Suc (toggles s2)\<rparr>)
      | (Raised x, s2) \<Rightarrow> (Raised x, s2))"
proof -
  let ?s1 = "snd (flip_activated e n s)"
  obtain r s2 where p: "performTogglingActions e ?s1 = (r, s2)"
    by (cases "performTogglingActions e ?s1")
  have t: "screensaverAndPowersavingType s2 = Some (detected e)"
    using perform_type[of e ?s1] p by simp
  show ?thesis
  proof (cases r)
    case Ok
    then show ?thesis
      using p t
      by (simp add: toggle_activated_private_def seqs_Cons_fst_Ok seqs_Cons_Ok skip_def assign_def)
  next
    case (Raised x)
    then show ?thesis
      using p by (simp add: toggle_activated_private_def seqs_Cons_fst_Ok seqs_Cons_Raised)
  qed
qed

lemma toggle_private_always:
  "inhibition_activated (snd (toggle_activated_private e n s)) = (\<not> inhibition_activated s)"
  "auto_activated (snd (toggle_activated_private e n s)) = auto_activated s"
  "next_timer (snd (toggle_activated_private e n s)) = next_timer s"
  "screensaverAndPowersavingType (snd (toggle_activated_private e n s)) = Some (detected e)"
proof -
  let ?s1 = "snd (flip_activated e n s)"
  obtain r s2 where p: "performTogglingActions e ?s1 = (r, s2)"
    by (cases "performTogglingActions e ?s1")
  have s2: "s2 = snd (performTogglingActions e ?s1)" using p by simp
  show "inhibition_activated (snd (toggle_activated_private e n s)) = (\<not> inhibition_activated s)"
    by (cases r) (simp_all add: toggle_private_split p, simp_all add: s2 perform_fields flip_fields)
  show "auto_activated (snd (toggle_activated_private e n s)) = auto_activated s"
    by (cases r) (simp_all add: toggle_private_split p, simp_all add: s2 perform_fields flip_fields)
  show "next_timer (snd (toggle_activated_private e n s)) = next_timer s"
    by (cases r) (simp_all add: toggle_private_split p, simp_all add: s2 perform_fields flip_fields)
  show "screensaverAndPowersavingType (snd (toggle_activated_private e n s)) = Some (detected e)"
    by (cases r) (simp_all add: toggle_private_split p, simp_all add: s2 perform_type)
qed

lemma toggle_private_Ok:
  assumes "fst (toggle_activated_private e n s) = Ok"
  shows "events (snd (toggle_activated_private e n s)) =
           events s @ [(\<not> inhibition_activated s, toggle_message e s)]"
    and "inhibition_successful (snd (toggle_activated_private e n s)) = (\<not> inhibition_successful s)"
    and "toggles (snd (toggle_activated_private e n s)) = Suc (toggles s)"
    and "status_string (snd (toggle_activated_private e n s)) = ''''"
proof -
  let ?s1 = "snd (flip_activated e n s)"
  obtain r s2 where p: "performTogglingActions e ?s1 = (r, s2)"
    by (cases "performTogglingActions e ?s1")
  have r: "r = Ok" using assms by (cases r) (simp_all add: toggle_private_split p)
  have s2: "s2 = snd (performTogglingActions e ?s1)" using p by simp
  have ok: "fst (performTogglingActions e ?s1) = Ok" using p r by simp
  show "events (snd (toggle_activated_private e n s)) =
           events s @ [(\<not> inhibition_activated s, toggle_message e s)]"
    by (simp add: toggle_private_split p r, simp add: s2 perform_fields flip_fields toggle_message_def)
  show "inhibition_successful (snd (toggle_activated_private e n s)) = (\<not> inhibition_successful s)"
    by (simp add: toggle_private_split p r, simp add: s2 perform_successful ok flip_fields)
  show "toggles (snd (toggle_activated_private e n s)) = Suc (toggles s)"
    by (simp add: toggle_private_split p r, simp add: s2 perform_fields flip_fields)
  show "status_string (snd (toggle_activated_private e n s)) = ''''"
    by (simp add: toggle_private_split p r)
qed

lemma toggle_private_Raised:
  assumes "fst (toggle_activated_private e n s) \<noteq> Ok"
  shows "events (snd (toggle_activated_private e n s)) = events s"
    and "inhibition_successful (snd (toggle_activated_private e n s)) = inhibition_successful s"
    and "toggles (snd (toggle_activated_private e n s)) = toggles s"
proof -
  let ?s1 = "snd (flip_activated e n s)"
  obtain r s2 where p: "performTogglingActions e ?s1 = (r, s2)"
    by (cases "performTogglingActions e ?s1")
  obtain x where r: "r = Raised x" using assms by (cases r) (simp_all add: toggle_private_split p)
  have s2: "s2 = snd (performTogglingActions e ?s1)" using p by simp
  have nok: "fst (performTogglingActions e ?s1) \<noteq> Ok" using p r by simp
  show "events (snd (toggle_activated_private e n s)) = events s"
    by (simp add: toggle_private_split p r, simp add: s2 perform_fields flip_fields)
  show "inhibition_successful (snd (toggle_activated_private e n s)) = inhibition_successful s"
    by (simp add: toggle_private_split p r, simp add: s2 perform_successful nok flip_fields)
  show "toggles (snd (toggle_activated_private e n s)) = toggles s"
    by (simp add: toggle_private_split p r, simp add: s2 perform_fields flip_fields)
qed

lemma seqs_hoare:
  assumes "\<And>f s. f \<in> set fs \<Longrightarrow> I s \<Longrightarrow> I (snd (f s)) \<and> Q (fst (f s))"
    and "I s" and "Q Ok"
  shows "I (snd (seqs fs s)) \<and> Q (fst (seqs fs s))"
  using assms
proof (induction fs arbitrary: s)
  case Nil
  then show ?case by simp
next
  case (Cons f fs)
  obtain r s' where fs: "f s = (r, s')" by (cases "f s")
  have I': "I s'" and Q': "Q r" using Cons.prems(1)[of f s] Cons.prems(2) fs by simp_all
  show ?case
  proof (cases r)
    case Ok
    have "I (snd (seqs fs s')) \<and> Q (fst (seqs fs s'))"
      by (rule Cons.IH) (use Cons.prems I' in auto)
    then show ?thesis using fs Ok by (simp add: seqs_Cons_Ok)
  next
    case (Raised x)
    then show ?thesis using fs I' Q' by (simp add: seqs_Cons_Raised)
  qed
qed

lemma call_outcome_Ok [simp]: "call_outcome e Ok"
  by (simp add: call_outcome_def)

lemma call_outcome_remote [simp]: "call_outcome e (fst (remote_call e c s))"
  by (auto simp: call_outcome_def remote_call_def)

lemma call_outcome_inhibit [simp]: "call_outcome e (fst (inhibit_call e c st s))"
  by (auto simp: call_outcome_def inhibit_call_def remote_call_def)

lemma adapters_outcome:
  "call_outcome e (fst (toggleDPMS s))"
  "call_outcome e (fst (toggleXSS e s))"
  "call_outcome e (fst (toggleXSSAndDPMS e s))"
  "call_outcome e (fst (toggleGnome3 e s))"
  "call_outcome e (fst (toggleKDE e s))"
proof -
  show d: "call_outcome e (fst (toggleDPMS s))" for s
    by (simp add: toggleDPMS_eq)
  show x: "call_outcome e (fst (toggleXSS e s))" for s
    by (simp add: toggleXSS_def split: option.splits)
  have h: "(\<And>f s. f \<in> set fs \<Longrightarrow> call_outcome e (fst (f s))) \<Longrightarrow>
           call_outcome e (fst (seqs fs s))" for fs s
    using seqs_hoare[where I = "\<lambda>_. True" and Q = "call_outcome e" and fs = fs and s = s]
    by simp
  show "call_outcome e (fst (toggleXSSAndDPMS e s))"
    unfolding toggleXSSAndDPMS_def by (rule h) (auto simp: d x)
  show "call_outcome e (fst (toggleGnome3 e s))"
    unfolding toggleGnome3_def by (rule h) (auto simp: d split: option.splits)
  show "call_outcome e (fst (toggleKDE e s))"
    unfolding toggleKDE_def
    by (rule h) (auto simp: d intro!: h split: option.splits)
qed

lemma perform_outcome: "call_outcome e (fst (performTogglingActions e s))"
proof -
  let ?s1 = "snd (detectScreensaverAndPowersavingType e s)"
  let ?rest = "[dispatch e, log_preventing,
                assign (\<lambda>s. s\<lparr>inhibition_successful := \<not> inhibition_successful s\<rparr>)]"
  let ?I = "\<lambda>t. screensaverAndPowersavingType t \<noteq> None"
  have 1: "performTogglingActions e s = seqs ?rest ?s1"
    by (simp add: perform_unfold detect_eq seqs_Cons_Ok)
  have "?I (snd (seqs ?rest ?s1)) \<and> call_outcome e (fst (seqs ?rest ?s1))"
  proof (rule seqs_hoare[where I = ?I and Q = "call_outcome e"])
    fix f and t :: state
    assume f: "f \<in> set ?rest" and t: "?I t"
    have d: "?I (snd (dispatch e t))"
      using t unfolding dispatch_def
      by (simp add: adapters_frame[where P = screensaverAndPowersavingType])
    have d': "call_outcome e (fst (dispatch e t))"
      unfolding dispatch_def by (simp add: adapters_outcome)
    have l: "?I (snd (log_preventing t)) \<and> call_outcome e (fst (log_preventing t))"
      using t by (auto simp: log_preventing_def log_line_def split: option.splits)
    from f t d d' l show "?I (snd (f t)) \<and> call_outcome e (fst (f t))" by auto
  qed (simp_all add: detect_eq)
  then show ?thesis by (simp add: 1)
qed

lemma toggle_private_fst:
  "fst (toggle_activated_private e n s) = fst (performTogglingActions e (snd (flip_activated e n s)))"
proof -
  obtain r s2 where p: "performTogglingActions e (snd (flip_activated e n s)) = (r, s2)"
    by (cases "performTogglingActions e (snd (flip_activated e n s))")
  show ?thesis by (cases r) (simp_all add: toggle_private_split p)
qed

lemma toggle_private_outcome: "call_outcome e (fst (toggle_activated_private e n s))"
  by (simp add: toggle_private_fst perform_outcome)

lemma toggle_private_no_failure:
  assumes "\<And>k c. \<not> fails e k c"
  shows "fst (toggle_activated_private e n s) = Ok"
  using toggle_private_outcome[of e n s] assms
  by (auto simp: call_outcome_def split: outcome.splits exn.splits)

lemma seqs_single: "seqs [f] s = f s"
  by (cases "f s"; cases "fst (f s)") (auto simp: seqs.simps)

lemma toggle_fst [simp]:
  "fst (toggle_activated e n s) = fst (toggle_activated_private e n (s\<lparr>auto_activated := False\<rparr>))"
  "snd (toggle_activated e n s) = snd (toggle_activated_private e n (s\<lparr>auto_activated := False\<rparr>))"
  by (simp_all add: toggle_activated_def seqs_single)

lemma toggle_message_auto [simp]:
  "toggle_message e (s\<lparr>auto_activated := v\<rparr>) = toggle_message e s"
  by (simp add: toggle_message_def)

lemma gnome_ok: "fst (toggle_activated_private env_gnome n s) = Ok"
  by (rule toggle_private_no_failure) (simp add: env_gnome_def)

lemma gnome_failing_raises:
  "fst (toggle_activated_private env_gnome_failing n init) = Raised (CallFailed SM_Inhibit)"
  by (simp add: toggle_private_fst flip_on init_def perform_unfold detect_eq detected_def
      env_gnome_failing_def env_gnome_def dispatch_def toggleGnome3_def toggleDPMS_eq
      seqs_Cons_fst_Ok seqs_Cons_Raised inhibit_call_def remote_call_def)

lemma scan_processes_fst:
  "fst (scan_processes e ps (b, s)) = (b \<or> (\<exists>p\<in>set ps. isProcessRunning e p))"
  by (induction ps arbitrary: b s) auto

lemma scan_processes_frame:
  assumes "\<And>v t. P (t\<lparr>logs := v\<rparr>) = P t"
  shows "P (snd (scan_processes e ps (b, s))) = P s"
  by (induction ps arbitrary: b s) (auto simp: log_line_def assms)

lemma monitor_logs_frame:
  assumes "\<And>v t. P (t\<lparr>logs := v\<rparr>) = P t"
  shows "P (monitor_logs e s) = P s"
  by (simp add: monitor_logs_def log_fullscreen_def log_line_def assms
      scan_processes_frame[where P = P])

lemma attempt_unfold:
  "attempt_autoactivation e s =
     (if inhibition_activated s \<and> \<not> auto_activated s
      then logging DEBUG (''Inhibition manually activated. Won'' @ [CHR 0x27] @ ''t attempt to ''
                          @ ''auto-activate'') s
      else if \<not> (\<exists>p\<in>set (process_list e). isProcessRunning e p) \<and> \<not> fullscreen e \<and>
              auto_activated s
      then deactivation_branch e (monitor_logs e s)
      else if (\<exists>p\<in>set (process_list e). isProcessRunning e p) \<or>
              fullscreen e \<and> \<not> auto_activated s
      then activation_branch e (monitor_logs e s)
      else (Ok, monitor_logs e s))"
proof -
  obtain b s1 where sc: "scan_processes e (process_list e) (False, s) = (b, s1)"
    by (cases "scan_processes e (process_list e) (False, s)")
  have b: "b = (\<exists>p\<in>set (process_list e). isProcessRunning e p)"
    using scan_processes_fst[of e "process_list e" False s] sc by simp
  have m: "monitor_logs e s = log_fullscreen e s1"
    by (simp add: monitor_logs_def sc)
  have a: "auto_activated (monitor_logs e s) = auto_activated s"
    by (rule monitor_logs_frame) simp
  show ?thesis
    unfolding attempt_autoactivation_def get_activated_def sc
    by (simp add: Let_def a m[symmetric] b skip_def)
qed

lemma set_private_auto [simp]:
  "auto_activated (snd (set_activated_private e a s)) = auto_activated s"
  by (simp add: set_activated_private_def toggle_private_always)

lemma activation_branch_auto:
  "auto_activated (snd (activation_branch e s)) = True"
  by (simp add: activation_branch_def seqs_single)

lemma detected_simps:
  "detected env_gnome = ''Gnome3''" "detected env_bare = ''DPMS''" "detected env_kde = ''KDE''"
  by (simp_all add: detected_def env_gnome_def env_bare_def env_kde_def)

lemma toggle_type [simp]:
  "screensaverAndPowersavingType (snd (toggle_activated e n s)) = Some (detected e)"
  by (simp add: toggle_private_always)

lemma perform_eval:
  "performTogglingActions e s =
     seqs [dispatch e, log_preventing,
           assign (\<lambda>s. s\<lparr>inhibition_successful := \<not> inhibition_successful s\<rparr>)]
       (snd (detectScreensaverAndPowersavingType e s))"
  by (simp add: perform_unfold detect_eq seqs_Cons_Ok)

lemma toggle_bare_init:
  "toggle_activated env_bare n init =
     (Ok, init\<lparr>inhibition_activated := True, inhibition_successful := True,
               screensaverAndPowersavingType := Some ''DPMS'',
               calls := [Timeout_add 10000, Shell ''xset -dpms'', Shell ''xset s off''],
               logs := [(DEBUG, ''Attempting to detect screensaver/powersaving type...''),
                        (INFO, ''Successfully detected screensaver and powersaving type: DPMS''),
                        (INFO, ''Caffeine is now preventing powersaving modes and screensaver activation (DPMS)'')],
               events := [(True, ''Caffeine is preventing powersaving modes and screensaver activation (DPMS)'')],
               toggles := 1\<rparr>)"
  by (simp add: toggle_activated_def toggle_activated_private_def flip_on init_def
      seqs_Cons_Ok perform_eval detect_eq detected_simps dispatch_def toggleDPMS_eq
      log_preventing_def seqs_Cons_fst_Ok log_line_def)

lemma dpms_active_fields:
  "inhibition_successful dpms_active"
  "screenSaverCookie dpms_active = None"
  "powerManagementCookie dpms_active = None"
  "inhibit_id dpms_active = None"
  "calls dpms_active = [Timeout_add 10000, Shell ''xset -dpms'', Shell ''xset s off'']"
  by (simp_all add: dpms_active_def toggle_bare_init, simp_all add: init_def)

lemma env_gnome_simps [simp]:
  "fails env_gnome k c = False" "cookie env_gnome k = 7"
  "fails env_bare k c = False" "fails env_kde k c = False"
  by (simp_all add: env_gnome_def env_bare_def env_kde_def)

lemma perform_gnome_on:
  "\<not> inhibition_successful s \<Longrightarrow>
   performTogglingActions env_gnome s =
     (Ok, s\<lparr>screensaverAndPowersavingType := Some ''Gnome3'',
            logs := logs s @
              [(DEBUG, ''Attempting to detect screensaver/powersaving type...''),
               (INFO, ''Successfully detected screensaver and powersaving type: Gnome3''),
               (INFO, ''Caffeine is now preventing powersaving modes and screensaver activation (Gnome3)'')],
            calls := calls s @ [Shell ''xset -dpms'', Shell ''xset s off'', SM_Inhibit],
            screenSaverCookie := Some 7,
            inhibition_successful := True\<rparr>)"
  by (simp add: perform_eval detect_eq detected_simps dispatch_def toggleGnome3_def toggleDPMS_eq
      inhibit_call_def remote_call_def log_preventing_def seqs.simps log_line_def logging_def assign_def)

lemma perform_bare_off:
  "inhibition_successful s \<Longrightarrow>
   performTogglingActions env_bare s =
     (Ok, s\<lparr>screensaverAndPowersavingType := Some ''DPMS'',
            logs := logs s @
              [(DEBUG, ''Attempting to detect screensaver/powersaving type...''),
               (INFO, ''Successfully detected screensaver and powersaving type: DPMS'')],
            calls := calls s @ [Shell ''xset +dpms'', Shell ''xset s on''],
            inhibition_successful := False\<rparr>)"
  by (simp add: perform_eval detect_eq detected_simps dispatch_def toggleDPMS_eq
      log_preventing_def seqs.simps log_line_def skip_def assign_def logging_def)

lemma toggle_gnome_init:
  "toggle_activated env_gnome n init =
     (Ok, init\<lparr>inhibition_activated := True, inhibition_successful := True,
               screensaverAndPowersavingType := Some ''Gnome3'',
               screenSaverCookie := Some 7,
               calls := [Timeout_add 10000, Shell ''xset -dpms'', Shell ''xset s off'', SM_Inhibit],
               logs := [(DEBUG, ''Attempting to detect screensaver/powersaving type...''),
                        (INFO, ''Successfully detected screensaver and powersaving type: Gnome3''),
                        (INFO, ''Caffeine is now preventing powersaving modes and screensaver activation (Gnome3)'')],
               events := [(True, ''Caffeine is preventing powersaving modes and screensaver activation (Gnome3)'')],
               toggles := 1\<rparr>)"
  by (simp add: toggle_activated_def seqs_single toggle_private_split flip_on perform_gnome_on
      detected_simps init_def)

lemma flip_off_no_timer:
  "inhibition_activated s \<Longrightarrow> timer s = None \<Longrightarrow>
   flip_activated e n s =
     (Ok, s\<lparr>inhibition_activated := False,
            logs := logs s @ [(INFO, ''Caffeine is now dormant; powersaving is re-enabled'')],
            status_string := ''Caffeine is dormant; powersaving is enabled''\<rparr>)"
  by (simp add: flip_activated_def seqs_single skip_def log_line_def)

lemma run_two: "run [(e1, p1), (e2, p2)] s = snd (step e2 p2 (snd (step e1 p1 s)))"
  by simp

lemma seqs_ok_inv:
  assumes "\<And>f t. f \<in> set fs \<Longrightarrow> fst (f t) = Ok \<Longrightarrow> J (snd (f t)) = J t"
    and "fst (seqs fs s) = Ok"
  shows "J (snd (seqs fs s)) = J s"
  using assms
proof (induction fs arbitrary: s)
  case Nil
  then show ?case by simp
next
  case (Cons f fs)
  obtain r s' where fs: "f s = (r, s')" by (cases "f s")
  show ?case
  proof (cases r)
    case Ok
    have 1: "J s' = J s" using Cons.prems(1)[of f s] fs Ok by simp
    have 2: "fst (seqs fs s') = Ok" using Cons.prems(2) fs Ok by (simp add: seqs_Cons_Ok)
    have "J (snd (seqs fs s')) = J s'"
      by (rule Cons.IH) (use Cons.prems(1) 2 in auto)
    then show ?thesis using fs Ok 1 by (simp add: seqs_Cons_Ok)
  next
    case (Raised x)
    then show ?thesis using fs Cons.prems(2) by (simp add: seqs_Cons_Raised)
  qed
qed

lemma surplus_upd [simp]:
  "surplus (s\<lparr>status_string := v1\<rparr>) = surplus s"
  "surplus (s\<lparr>screensaverAndPowersavingType := v2\<rparr>) = surplus s"
  "surplus (s\<lparr>inhibition_activated := v3\<rparr>) = surplus s"
  "surplus (s\<lparr>inhibition_successful := v4\<rparr>) = surplus s"
  "surplus (s\<lparr>auto_activated := v5\<rparr>) = surplus s"
  "surplus (s\<lparr>screenSaverCookie := v6\<rparr>) = surplus s"
  "surplus (s\<lparr>powerManagementCookie := v7\<rparr>) = surplus s"
  "surplus (s\<lparr>timer := v8\<rparr>) = surplus s"
  "surplus (s\<lparr>inhibit_id := v9\<rparr>) = surplus s"
  "surplus (s\<lparr>note_attr := v10\<rparr>) = surplus s"
  "surplus (s\<lparr>has_ssProxy := v11\<rparr>) = surplus s"
  "surplus (s\<lparr>timers := v12\<rparr>) = surplus s"
  "surplus (s\<lparr>next_timer := v13\<rparr>) = surplus s"
  "surplus (s\<lparr>calls := v14\<rparr>) = surplus s"
  "surplus (s\<lparr>logs := v15\<rparr>) = surplus s"
  by (simp_all add: surplus_def)

lemma mirrored_upd [simp]:
  "mirrored (s\<lparr>status_string := v1\<rparr>) = mirrored s"
  "mirrored (s\<lparr>screensaverAndPowersavingType := v2\<rparr>) = mirrored s"
  "mirrored (s\<lparr>auto_activated := v5\<rparr>) = mirrored s"
  "mirrored (s\<lparr>screenSaverCookie := v6\<rparr>) = mirrored s"
  "mirrored (s\<lparr>powerManagementCookie := v7\<rparr>) = mirrored s"
  "mirrored (s\<lparr>timer := v8\<rparr>) = mirrored s"
  "mirrored (s\<lparr>inhibit_id := v9\<rparr>) = mirrored s"
  "mirrored (s\<lparr>note_attr := v10\<rparr>) = mirrored s"
  "mirrored (s\<lparr>has_ssProxy := v11\<rparr>) = mirrored s"
  "mirrored (s\<lparr>timers := v12\<rparr>) = mirrored s"
  "mirrored (s\<lparr>next_timer := v13\<rparr>) = mirrored s"
  "mirrored (s\<lparr>calls := v14\<rparr>) = mirrored s"
  "mirrored (s\<lparr>logs := v15\<rparr>) = mirrored s"
  "mirrored (s\<lparr>events := v16\<rparr>) = mirrored s"
  "mirrored (s\<lparr>toggles := v17\<rparr>) = mirrored s"
  by (simp_all add: mirrored_def)

lemma toggle_private_surplus [simp]:
  "surplus (snd (toggle_activated_private e n s)) = surplus s"
proof (cases "fst (toggle_activated_private e n s) = Ok")
  case True
  then show ?thesis using toggle_private_Ok[of e n s] by (simp add: surplus_def)
next
  case False
  then show ?thesis using toggle_private_Raised[of e n s] by (simp add: surplus_def)
qed

lemma toggle_private_mirrored:
  "fst (toggle_activated_private e n s) = Ok \<Longrightarrow>
   mirrored (snd (toggle_activated_private e n s)) = mirrored s"
  using toggle_private_Ok(2)[of e n s]
  by (auto simp: mirrored_def toggle_private_always)

lemma notify_surplus [simp]: "surplus (snd (notify e m i s)) = surplus s"
  by (rule notify_frame) simp_all

lemma notify_mirrored [simp]: "mirrored (snd (notify e m i s)) = mirrored s"
  by (rule notify_frame) simp_all

lemma set_activated_surplus [simp]:
  "surplus (snd (set_activated e a n s)) = surplus s"
  "surplus (snd (set_activated_private e a s)) = surplus s"
  by (simp_all add: set_activated_def set_activated_private_def)

lemma set_activated_mirrored:
  "fst (set_activated e a n s) = Ok \<Longrightarrow> mirrored (snd (set_activated e a n s)) = mirrored s"
  "fst (set_activated_private e a s) = Ok \<Longrightarrow>
   mirrored (snd (set_activated_private e a s)) = mirrored s"
  using toggle_private_mirrored[of e n "s\<lparr>auto_activated := False\<rparr>"]
    toggle_private_mirrored[of e a s]
  by (auto simp: set_activated_def set_activated_private_def split: if_splits)

lemma toggle_mirrored:
  "fst (toggle_activated e n s) = Ok \<Longrightarrow> mirrored (snd (toggle_activated e n s)) = mirrored s"
  using toggle_private_mirrored[of e n "s\<lparr>auto_activated := False\<rparr>"] by simp

lemma timed_split:
  "timed_activation e time note s = seqs (timed_rest e time note) (announce time s)"
  by (simp add: timed_activation_def timed_rest_def announce_def seqs_Cons_fst_Ok log_line_def)

lemma timer_ops [simp]:
  "surplus (snd (timer_cancel i s)) = surplus s"
  "mirrored (snd (timer_cancel i s)) = mirrored s"
  "surplus (snd (timer_new t n s)) = surplus s"
  "mirrored (snd (timer_new t n s)) = mirrored s"
  by (simp_all add: timer_cancel_def timer_new_def)

lemma timed_rest_surplus:
  "f \<in> set (timed_rest e time note) \<Longrightarrow> surplus (snd (f t)) = surplus t"
  by (auto simp: timed_rest_def log_line_def split: option.splits)

lemma timed_rest_mirrored:
  "f \<in> set (timed_rest e time note) \<Longrightarrow> fst (f t) = Ok \<Longrightarrow> mirrored (snd (f t)) = mirrored t"
  by (auto simp: timed_rest_def log_line_def set_activated_mirrored
      split: option.splits if_splits)

lemma timed_surplus:
  "surplus (snd (timed_activation e time note s)) =
     surplus s + (if status_string s = [] then 1 else 0)"
proof -
  have "surplus (snd (seqs (timed_rest e time note) (announce time s))) = surplus (announce time s)"
    by (rule seqs_inv[where I = "\<lambda>t. surplus t = surplus (announce time s)"])
       (simp_all add: timed_rest_surplus)
  moreover have "surplus (announce time s) = surplus s + (if status_string s = [] then 1 else 0)"
    by (simp add: announce_def) (simp add: surplus_def)
  ultimately show ?thesis by (simp add: timed_split)
qed

lemma timed_mirrored:
  assumes "fst (timed_activation e time note s) = Ok"
  shows "mirrored (snd (timed_activation e time note s)) = mirrored s"
proof -
  have "mirrored (snd (seqs (timed_rest e time note) (announce time s))) =
          mirrored (announce time s)"
    by (rule seqs_ok_inv[where J = mirrored])
       (use assms in \<open>simp_all add: timed_rest_mirrored timed_split\<close>)
  moreover have "mirrored (announce time s) = mirrored s"
    by (simp add: announce_def)
  ultimately show ?thesis by (simp add: timed_split)
qed

lemma monitor_logs_simps [simp]:
  "surplus (monitor_logs e s) = surplus s"
  "mirrored (monitor_logs e s) = mirrored s"
  by (rule monitor_logs_frame; simp)+

lemma attempt_surplus:
  "surplus (snd (attempt_autoactivation e s)) = surplus s"
  by (simp add: attempt_unfold deactivation_branch_def activation_branch_def seqs_single
      log_line_def)

lemma attempt_mirrored:
  "fst (attempt_autoactivation e s) = Ok \<Longrightarrow>
   mirrored (snd (attempt_autoactivation e s)) = mirrored s"
  using set_activated_mirrored(2)[of e False "log_line INFO
            (''Was auto-inhibited, but there'' @ [CHR 0x27] @ ''s no fullscreen or ''
             @ ''whitelisted process now. De-activating.'') (monitor_logs e s)\<lparr>auto_activated := False\<rparr>"]
    set_activated_mirrored(2)[of e True "monitor_logs e s\<lparr>auto_activated := True\<rparr>"]
  by (auto simp: attempt_unfold deactivation_branch_def activation_branch_def seqs_single
      log_line_def split: if_splits)

lemma deactivate_raises: "fst (deactivate n s) \<noteq> Ok"
  by (simp add: deactivate_def seqs_single raise_def split: option.splits)

lemma deactivate_surplus: "surplus (snd (deactivate n s)) = surplus s"
  by (simp add: deactivate_def seqs_single split: option.splits)

lemma timer_fires_surplus: "surplus (snd (timer_fires e i s)) = surplus s"
  by (simp add: timer_fires_def seqs_single deactivate_surplus)

lemma timer_fires_mirrored:
  "fst (timer_fires e i s) = Ok \<Longrightarrow> mirrored (snd (timer_fires e i s)) = mirrored s"
  using deactivate_raises[of "note_arg (timers s i)"
      "s\<lparr>timers := (timers s)(i := (timers s i)\<lparr>status := Fired\<rparr>)\<rparr>"]
  by (auto simp: timer_fires_def seqs_single split: if_splits)

lemma quit_simps:
  "surplus (snd (quit s)) = surplus s" "mirrored (snd (quit s)) = mirrored s"
  by (simp_all add: quit_def split: option.splits)

lemma step_surplus:
  "surplus (snd (step e p s)) = surplus s + int (announces p s)"
  by (cases p)
     (simp_all add: timed_surplus attempt_surplus timer_fires_surplus quit_simps)

lemma step_mirrored:
  "fst (step e p s) = Ok \<Longrightarrow> mirrored (snd (step e p s)) = mirrored s"
  by (cases p)
     (simp_all add: set_activated_mirrored timed_mirrored attempt_mirrored
        timer_fires_mirrored quit_simps toggle_mirrored del: toggle_fst)

lemma run_surplus:
  "surplus (run ps s) = surplus s + int (announcements ps s)"
proof (induction ps arbitrary: s)
  case Nil
  then show ?case by simp
next
  case (Cons a ps)
  obtain e p where a: "a = (e, p)" by (cases a)
  show ?case by (simp add: a Cons.IH step_surplus)
qed

lemma run_mirrored:
  "run_ok ps s \<Longrightarrow> mirrored (run ps s) = mirrored s"
proof (induction ps arbitrary: s)
  case Nil
  then show ?case by simp
next
  case (Cons a ps)
  obtain e p where a: "a = (e, p)" by (cases a)
  show ?case using Cons.prems by (simp add: a Cons.IH step_mirrored)
qed

lemma toggles_mono: "toggles s \<le> toggles (snd (toggle_activated_private e n s))"
  using toggle_private_Ok(3)[of e n s] toggle_private_Raised(3)[of e n s]
  by (cases "fst (toggle_activated_private e n s) = Ok") simp_all

lemma str_int_5 [simp]: "str_int 5 = ''5''"
  by code_simp

lemma str_int_10 [simp]: "str_int 10 = ''10''"
  by code_simp

lemma set_activated_no_failure:
  assumes "\<And>k c. \<not> fails e k c"
  shows "fst (set_activated e a n s) = Ok" "fst (set_activated_private e a s) = Ok"
    "fst (toggle_activated e n s) = Ok"
  using toggle_private_no_failure[OF assms]
  by (simp_all add: set_activated_def set_activated_private_def)

lemma timed_no_failure:
  assumes "\<And>k c. \<not> fails e k c"
  shows "fst (timed_activation e time note s) = Ok"
  unfolding timed_split
proof (rule seqs_ok)
  fix f t assume "f \<in> set (timed_rest e time note)"
  then show "fst (f t) = Ok"
    by (auto simp: timed_rest_def set_activated_no_failure(1)[OF assms] timer_new_def
        timer_cancel_def split: option.splits)
qed

lemma attempt_no_failure:
  assumes "\<And>k c. \<not> fails e k c"
  shows "fst (attempt_autoactivation e s) = Ok"
  by (simp add: attempt_unfold deactivation_branch_def activation_branch_def seqs_single
      set_activated_no_failure(2)[OF assms])

text \<open>After its toggle, a timed activation changes only the notification, the log
  and the timers.\<close>

lemma timed_tail_frame:
  assumes "\<And>v t. P (t\<lparr>calls := v\<rparr>) = P t"
    and "\<And>v t. P (t\<lparr>logs := v\<rparr>) = P t"
    and "\<And>v t. P (t\<lparr>note_attr := v\<rparr>) = P t"
    and "\<And>v t. P (t\<lparr>screenSaverCookie := v\<rparr>) = P t"
    and "\<And>v t. P (t\<lparr>timers := v\<rparr>) = P t"
    and "\<And>v t. P (t\<lparr>timer := v\<rparr>) = P t"
    and "\<And>v t. P (t\<lparr>next_timer := v\<rparr>) = P t"
  shows "P (snd (timed_activation e time note s)) =
         P (snd (set_activated e True note (announce time s)))"
proof -
  let ?s0 = "announce time s"
  let ?tail = "tl (timed_rest e time note)"
  obtain r s1 where sa: "set_activated e True note ?s0 = (r, s1)"
    by (cases "set_activated e True note ?s0")
  have rest: "timed_rest e time note = set_activated e True note # ?tail"
    by (simp add: timed_rest_def)
  show ?thesis
  proof (cases r)
    case Ok
    have "P (snd (seqs ?tail s1)) = P s1"
    proof (rule seqs_inv[where I = "\<lambda>t. P t = P s1"])
      fix f t assume "f \<in> set ?tail" and "P t = P s1"
      then show "P (snd (f t)) = P s1"
        by (auto simp: timed_rest_def notify_frame[where P = P] assms log_line_def
            timer_cancel_def timer_new_def split: option.splits)
    qed simp
    moreover have "timed_activation e time note s = seqs ?tail s1"
      using sa Ok by (subst timed_split, subst rest) (simp add: seqs_Cons_Ok)
    ultimately show ?thesis using sa by simp
  next
    case (Raised x)
    have "timed_activation e time note s = (Raised x, s1)"
      using sa Raised by (subst timed_split, subst rest) (simp add: seqs_Cons_Raised)
    then show ?thesis using sa by simp
  qed
qed

lemma timed_gnome_init:
  "events (snd (timed_activation env_gnome 5 True init)) =
     [(False, ''Activated for 5''), (True, ''Activated for 5'')]"
  "toggles (snd (timed_activation env_gnome 5 True init)) = 1"
proof -
  have a: "\<not> inhibition_activated (announce 5 init)"
    "events (announce 5 init) = [(False, ''Activated for 5'')]"
    "status_string (announce 5 init) = ''Activated for 5''"
    "toggles (announce 5 init) = 0"
    by (simp_all add: announce_def init_def)
  have ok: "fst (toggle_activated_private env_gnome True (announce 5 init\<lparr>auto_activated := False\<rparr>)) = Ok"
    by (rule gnome_ok)
  show "events (snd (timed_activation env_gnome 5 True init)) =
     [(False, ''Activated for 5''), (True, ''Activated for 5'')]"
    by (subst timed_tail_frame[where P = events])
       (simp_all add: set_activated_def get_activated_def a toggle_private_Ok(1)[OF ok]
          toggle_message_def)
  show "toggles (snd (timed_activation env_gnome 5 True init)) = 1"
    by (subst timed_tail_frame[where P = toggles])
       (simp_all add: set_activated_def get_activated_def a toggle_private_Ok(3)[OF ok])
qed

lemma run_one: "run [(e, p)] s = snd (step e p s)"
  by simp

lemma failed_then_ok:
  "fst (toggle_activated env_gnome True (snd (toggle_activated env_gnome_failing True init))) = Ok"
  "inhibition_activated
     (snd (toggle_activated env_gnome True (snd (toggle_activated env_gnome_failing True init)))) =
   False"
  "inhibition_successful
     (snd (toggle_activated env_gnome True (snd (toggle_activated env_gnome_failing True init)))) =
   True"
proof -
  let ?s1 = "snd (toggle_activated env_gnome_failing True init)"
  have r: "fst (toggle_activated_private env_gnome_failing True (init\<lparr>auto_activated := False\<rparr>)) \<noteq> Ok"
    using gnome_failing_raises[of True] by (simp add: init_def)
  have a1: "inhibition_activated ?s1 = True"
    by (simp add: toggle_private_always init_def)
  have s1: "inhibition_successful ?s1 = False"
    using toggle_private_Raised(2)[OF r] by (simp add: init_def)
  show ok: "fst (toggle_activated env_gnome True ?s1) = Ok"
    by (simp add: gnome_ok del: toggle_fst(2))
  show "inhibition_activated (snd (toggle_activated env_gnome True ?s1)) = False"
    using a1 by (simp add: toggle_private_always)
  show "inhibition_successful (snd (toggle_activated env_gnome True ?s1)) = True"
    using s1 toggle_private_Ok(2)[of env_gnome True "?s1\<lparr>auto_activated := False\<rparr>"]
    by (simp add: gnome_ok)
qed

lemma env_no_failure [simp]:
  "fails env_busy k c = False"
  by (simp add: env_busy_def)

lemma timed_after_toggle:
  assumes sa: "set_activated e True n (announce t s) = (Ok, sa)"
  shows "fst (timed_activation e t n s) = Ok"
    and "timer (snd (timed_activation e t n s)) = Some (next_timer sa)"
    and "next_timer (snd (timed_activation e t n s)) = Suc (next_timer sa)"
    and "timers (snd (timed_activation e t n s)) =
          (case timer sa of
             None \<Rightarrow> timers sa
           | Some i \<Rightarrow> (timers sa)(i := cancelled (timers sa i)))
          (next_timer sa := \<lparr>interval = t, name = ''Active'', note_arg = n, status = Waiting\<rparr>)"
    and "timer sa = Some i \<Longrightarrow>
          (INFO, superseded_message (interval (timers sa i)) t)
            \<in> set (logs (snd (timed_activation e t n s)))"
proof -
  have 1: "timed_activation e t n s = seqs (tl (timed_rest e t n)) sa"
    using sa by (subst timed_split) (simp add: timed_rest_def seqs_Cons_Ok)
  show "fst (timed_activation e t n s) = Ok"
    unfolding 1
    by (rule seqs_ok)
       (auto simp: timed_rest_def timer_new_def timer_cancel_def split: option.splits)
  show "timer (snd (timed_activation e t n s)) = Some (next_timer sa)"
    unfolding 1
    by (simp add: timed_rest_def seqs_Cons_fst_Ok timer_new_def timer_cancel_def log_line_def
        skip_def split: option.splits)
  show "next_timer (snd (timed_activation e t n s)) = Suc (next_timer sa)"
    unfolding 1
    by (simp add: timed_rest_def seqs_Cons_fst_Ok timer_new_def timer_cancel_def log_line_def
        skip_def split: option.splits)
  show "timers (snd (timed_activation e t n s)) =
          (case timer sa of
             None \<Rightarrow> timers sa
           | Some i \<Rightarrow> (timers sa)(i := cancelled (timers sa i)))
          (next_timer sa := \<lparr>interval = t, name = ''Active'', note_arg = n, status = Waiting\<rparr>)"
    unfolding 1
    by (simp add: timed_rest_def seqs_Cons_fst_Ok timer_new_def timer_cancel_def log_line_def
        skip_def cancelled_def split: option.splits)
  show "timer sa = Some i \<Longrightarrow>
          (INFO, superseded_message (interval (timers sa i)) t)
            \<in> set (logs (snd (timed_activation e t n s)))"
    unfolding 1
    by (simp add: timed_rest_def seqs_Cons_fst_Ok timer_new_def timer_cancel_def log_line_def
        skip_def superseded_message_def split: option.splits)
qed

lemma toggle_on_timers:
  assumes "\<not> inhibition_activated s"
  shows "timers (snd (toggle_activated_private e n s)) = timers s"
    and "timer (snd (toggle_activated_private e n s)) = timer s"
proof -
  let ?s1 = "s\<lparr>inhibition_activated := True\<rparr>"
  obtain r s2 where p: "performTogglingActions e ?s1 = (r, s2)"
    by (cases "performTogglingActions e ?s1")
  have s2: "timers s2 = timers s" "timer s2 = timer s"
    using perform_fields(6,7)[of e ?s1] p by simp_all
  show "timers (snd (toggle_activated_private e n s)) = timers s"
    by (cases r) (simp_all add: toggle_private_split flip_on[OF assms] p s2)
  show "timer (snd (toggle_activated_private e n s)) = timer s"
    by (cases r) (simp_all add: toggle_private_split flip_on[OF assms] p s2)
qed

lemma timed_ok_toggle:
  assumes "fst (timed_activation e t n s) = Ok"
  shows "fst (set_activated e True n (announce t s)) = Ok"
proof -
  obtain r sa where sa: "set_activated e True n (announce t s) = (r, sa)"
    by (cases "set_activated e True n (announce t s)")
  show ?thesis
  proof (cases r)
    case Ok
    then show ?thesis using sa by simp
  next
    case (Raised x)
    then have "timed_activation e t n s = (Raised x, sa)"
      using sa by (subst timed_split) (simp add: timed_rest_def seqs_Cons_Raised)
    then show ?thesis using assms by simp
  qed
qed

lemma announce_fields [simp]:
  "inhibition_activated (announce t s) = inhibition_activated s"
  "timer (announce t s) = timer s"
  "timers (announce t s) = timers s"
  "next_timer (announce t s) = next_timer s"
  by (simp_all add: announce_def)

text \<open>The first timed activation, from a state without inhibition and without timer.\<close>

lemma first_timed:
  assumes off: "\<not> inhibition_activated s" "timer s = None"
    and ok: "fst (timed_activation e t n s) = Ok"
  shows "inhibition_activated (snd (timed_activation e t n s))"
    and "status_string (snd (timed_activation e t n s)) = []"
    and "timer (snd (timed_activation e t n s)) = Some (next_timer s)"
    and "next_timer (snd (timed_activation e t n s)) = Suc (next_timer s)"
    and "timers (snd (timed_activation e t n s)) =
           (timers s)(next_timer s :=
              \<lparr>interval = t, name = ''Active'', note_arg = n, status = Waiting\<rparr>)"
proof -
  let ?s0 = "announce t s\<lparr>auto_activated := False\<rparr>"
  let ?sa = "snd (toggle_activated_private e n ?s0)"
  have tok: "fst (toggle_activated_private e n ?s0) = Ok"
    using timed_ok_toggle[OF ok] off by (simp add: set_activated_def get_activated_def)
  have sa: "set_activated e True n (announce t s) = (Ok, ?sa)"
    using tok off
    by (simp add: set_activated_def get_activated_def prod_eq_iff)
  have n0: "\<not> inhibition_activated ?s0" using off by simp
  have f: "timers ?sa = timers s" "timer ?sa = None" "next_timer ?sa = next_timer s"
    using toggle_on_timers[OF n0, of e n] off by (simp_all add: toggle_private_always)
  show "inhibition_activated (snd (timed_activation e t n s))"
    by (subst timed_tail_frame[where P = inhibition_activated])
       (simp_all add: sa toggle_private_always off)
  show "status_string (snd (timed_activation e t n s)) = []"
    by (subst timed_tail_frame[where P = status_string])
       (simp_all add: sa toggle_private_Ok(4)[OF tok])
  show "timer (snd (timed_activation e t n s)) = Some (next_timer s)"
    using timed_after_toggle(2)[OF sa] f by simp
  show "next_timer (snd (timed_activation e t n s)) = Suc (next_timer s)"
    using timed_after_toggle(3)[OF sa] f by simp
  show "timers (snd (timed_activation e t n s)) =
           (timers s)(next_timer s :=
              \<lparr>interval = t, name = ''Active'', note_arg = n, status = Waiting\<rparr>)"
    using timed_after_toggle(4)[OF sa] f by simp
qed

text \<open>A timed activation while inhibition is active and the status string is empty.\<close>

lemma second_timed:
  assumes on: "inhibition_activated s" and st: "status_string s = []"
    and tm: "timer s = Some i"
  shows "fst (timed_activation e t n s) = Ok"
    and "timer (snd (timed_activation e t n s)) = Some (next_timer s)"
    and "next_timer (snd (timed_activation e t n s)) = Suc (next_timer s)"
    and "timers (snd (timed_activation e t n s)) =
           (timers s)(i := cancelled (timers s i),
                      next_timer s :=
                        \<lparr>interval = t, name = ''Active'', note_arg = n, status = Waiting\<rparr>)"
    and "(INFO, superseded_message (interval (timers s i)) t)
           \<in> set (logs (snd (timed_activation e t n s)))"
    and "events (snd (timed_activation e t n s)) =
           events s @ [(True, ''Activated for '' @ str_int t)]"
proof -
  have sa: "set_activated e True n (announce t s) = (Ok, announce t s)"
    using on by (simp add: set_activated_def get_activated_def skip_def)
  have tm': "timer (announce t s) = Some i" using tm by simp
  show "fst (timed_activation e t n s) = Ok"
    by (rule timed_after_toggle(1)[OF sa])
  show "timer (snd (timed_activation e t n s)) = Some (next_timer s)"
    using timed_after_toggle(2)[OF sa] by simp
  show "next_timer (snd (timed_activation e t n s)) = Suc (next_timer s)"
    using timed_after_toggle(3)[OF sa] by simp
  show "timers (snd (timed_activation e t n s)) =
           (timers s)(i := cancelled (timers s i),
                      next_timer s :=
                        \<lparr>interval = t, name = ''Active'', note_arg = n, status = Waiting\<rparr>)"
    using timed_after_toggle(4)[OF sa] tm by simp
  show "(INFO, superseded_message (interval (timers s i)) t)
           \<in> set (logs (snd (timed_activation e t n s)))"
    using timed_after_toggle(5)[OF sa tm'] by simp
  show "events (snd (timed_activation e t n s)) =
           events s @ [(True, ''Activated for '' @ str_int t)]"
    by (subst timed_tail_frame[where P = events])
       (simp_all add: sa, simp add: announce_def st on)
qed

lemma live_timers_empty:
  "live_timers s = [] \<longleftrightarrow> (\<forall>i<next_timer s. status (timers s i) \<noteq> Waiting)"
  by (auto simp: live_timers_def filter_empty_conv)

lemma live_timers_Suc:
  assumes "next_timer s' = Suc k" and "\<And>i. i < k \<Longrightarrow> status (timers s' i) \<noteq> Waiting"
    and "status (timers s' k) = Waiting"
  shows "live_timers s' = [k]"
proof -
  have "filter (\<lambda>i. status (timers s' i) = Waiting) [0..<k] = []"
    using assms(2) by (auto simp: filter_empty_conv)
  then show ?thesis using assms(1,3) by (simp add: live_timers_def)
qed

subsection \<open>The signals of a timed activation\<close>


lemma timed_fst:
  "fst (timed_activation e t n s) = fst (set_activated e True n (announce t s))"
proof -
  obtain r sa where sa: "set_activated e True n (announce t s) = (r, sa)"
    by (cases "set_activated e True n (announce t s)")
  show ?thesis
  proof (cases r)
    case Ok
    then show ?thesis using timed_after_toggle(1)[of e n t s sa] sa by simp
  next
    case (Raised x)
    then have "timed_activation e t n s = (Raised x, sa)"
      using sa by (subst timed_split) (simp add: timed_rest_def seqs_Cons_Raised)
    then show ?thesis using sa Raised by simp
  qed
qed

lemma announce_status:
  "status_string (announce t s) =
     (if status_string s = [] then ''Activated for '' @ str_int t else status_string s)"
  "events (announce t s) =
     (if status_string s = []
      then events s @ [(inhibition_activated s, ''Activated for '' @ str_int t)]
      else events s)"
  by (simp_all add: announce_def)

lemma timed_events:
  "events (snd (timed_activation e t n s)) =
     (if status_string s = []
      then events s @ [(inhibition_activated s, ''Activated for '' @ str_int t)]
      else events s) @
     (if \<not> inhibition_activated s \<and> fst (timed_activation e t n s) = Ok
      then [(True, if status_string s = [] then ''Activated for '' @ str_int t
                   else status_string s)]
      else [])"
proof (cases "inhibition_activated s")
  case True
  have "events (snd (timed_activation e t n s)) =
          events (snd (set_activated e True n (announce t s)))"
    by (rule timed_tail_frame) simp_all
  then show ?thesis
    using True by (simp add: set_activated_def get_activated_def announce_status)
next
  case False
  let ?a = "announce t s\<lparr>auto_activated := False\<rparr>"
  have 1: "events (snd (timed_activation e t n s)) =
          events (snd (set_activated e True n (announce t s)))"
    by (rule timed_tail_frame) simp_all
  have sa: "set_activated e True n (announce t s) = toggle_activated e n (announce t s)"
    using False by (simp add: set_activated_def get_activated_def)
  have m: "toggle_message e (announce t s) =
             (if status_string s = [] then ''Activated for '' @ str_int t else status_string s)"
    using False by (simp add: toggle_message_def announce_status)
  show ?thesis
  proof (cases "fst (toggle_activated_private e n ?a) = Ok")
    case True
    then show ?thesis
      using False toggle_private_Ok(1)[OF True]
      by (simp add: 1 sa timed_fst m announce_status)
  next
    case ff: False
    then show ?thesis
      using False toggle_private_Raised(1)[OF ff]
      by (simp add: 1 sa timed_fst announce_status)
  qed
qed

subsection \<open>Release calls and absent handles\<close>

lemma quiet_refl [simp]: "quiet h s s"
  by (simp add: quiet_def)

lemma quiet_trans: "quiet h s t \<Longrightarrow> quiet h t u \<Longrightarrow> quiet h s u"
  by (auto simp: quiet_def)

lemma quiet_upd [simp]:
  "quiet h s (t\<lparr>status_string := v1\<rparr>) = quiet h s t"
  "quiet h s (t\<lparr>screensaverAndPowersavingType := v2\<rparr>) = quiet h s t"
  "quiet h s (t\<lparr>inhibition_activated := v3\<rparr>) = quiet h s t"
  "quiet h s (t\<lparr>inhibition_successful := v4\<rparr>) = quiet h s t"
  "quiet h s (t\<lparr>auto_activated := v5\<rparr>) = quiet h s t"
  "quiet h s (t\<lparr>screenSaverCookie := v6\<rparr>) = quiet h s t"
  "quiet h s (t\<lparr>powerManagementCookie := v7\<rparr>) = quiet h s t"
  "quiet h s (t\<lparr>timer := v8\<rparr>) = quiet h s t"
  "quiet h s (t\<lparr>inhibit_id := v9\<rparr>) = quiet h s t"
  "quiet h s (t\<lparr>note_attr := v10\<rparr>) = quiet h s t"
  "quiet h s (t\<lparr>has_ssProxy := v11\<rparr>) = quiet h s t"
  "quiet h s (t\<lparr>timers := v12\<rparr>) = quiet h s t"
  "quiet h s (t\<lparr>next_timer := v13\<rparr>) = quiet h s t"
  "quiet h s (t\<lparr>logs := v15\<rparr>) = quiet h s t"
  "quiet h s (t\<lparr>events := v16\<rparr>) = quiet h s t"
  "quiet h s (t\<lparr>toggles := v17\<rparr>) = quiet h s t"
  by (simp_all add: quiet_def)

lemma quiet_append [simp]:
  "quiet h s t \<Longrightarrow>
   quiet h s (t\<lparr>calls := calls t @ [c]\<rparr>) = (\<not> releases h c)"
  by (auto simp: quiet_def)

lemma absent_upd [simp]:
  "absent h (t\<lparr>status_string := v1\<rparr>) = absent h t"
  "absent h (t\<lparr>screensaverAndPowersavingType := v2\<rparr>) = absent h t"
  "absent h (t\<lparr>inhibition_activated := v3\<rparr>) = absent h t"
  "absent h (t\<lparr>inhibition_successful := v4\<rparr>) = absent h t"
  "absent h (t\<lparr>auto_activated := v5\<rparr>) = absent h t"
  "absent h (t\<lparr>timer := v8\<rparr>) = absent h t"
  "absent h (t\<lparr>note_attr := v10\<rparr>) = absent h t"
  "absent h (t\<lparr>has_ssProxy := v11\<rparr>) = absent h t"
  "absent h (t\<lparr>timers := v12\<rparr>) = absent h t"
  "absent h (t\<lparr>next_timer := v13\<rparr>) = absent h t"
  "absent h (t\<lparr>calls := v14\<rparr>) = absent h t"
  "absent h (t\<lparr>logs := v15\<rparr>) = absent h t"
  "absent h (t\<lparr>events := v16\<rparr>) = absent h t"
  "absent h (t\<lparr>toggles := v17\<rparr>) = absent h t"
  by (cases h; simp)+

text \<open>A notification releases no handle that is absent, and leaves it absent.\<close>

lemma notify_try_quiet:
  assumes "quiet h s t" and "absent h t"
  shows "quiet h s (snd (notify_try e m i t)) \<and> absent h (snd (notify_try e m i t))"
  unfolding notify_try_def
proof (rule seqs_inv[where I = "\<lambda>u. quiet h s u \<and> absent h u"])
  fix f u
  assume "f \<in> set [
       (\<lambda>s. case note_attr s of
               Some n \<Rightarrow> assign (\<lambda>s. s\<lparr>note_attr := Some (''Caffeine'', m, i)\<rparr>) s
             | None \<Rightarrow> assign (\<lambda>s. s\<lparr>note_attr := Some (''Caffeine'', m, i)\<rparr>) s),
       (\<lambda>s. case screenSaverCookie s of
               Some c \<Rightarrow>
                 if inhibition_successful s
                 then (if has_ssProxy s then remote_call e (SS_UnInhibit c) s
                       else raise (AttributeError ''ssProxy'') s)
                 else skip s
             | None \<Rightarrow> skip s),
       remote_call e (Note_show ''Caffeine'' m i),
       (\<lambda>s. case screenSaverCookie s of
               Some c \<Rightarrow>
                 if inhibition_successful s
                 then (if has_ssProxy s
                       then inhibit_call e SS_Inhibit (\<lambda>c s. s\<lparr>screenSaverCookie := Some c\<rparr>) s
                       else raise (AttributeError ''ssProxy'') s)
                 else skip s
             | None \<Rightarrow> skip s)]"
    and "quiet h s u \<and> absent h u"
  then show "quiet h s (snd (f u)) \<and> absent h (snd (f u))"
    by (cases h) (auto simp: snd_inhibit_call split: option.splits)
qed (use assms in simp)

lemma notify_quiet:
  assumes "quiet h s t" and "absent h t"
  shows "quiet h s (snd (notify e m i t))" and "absent h (snd (notify e m i t))"
proof -
  obtain r t' where b: "notify_try e m i t = (r, t')" by (cases "notify_try e m i t")
  have t': "quiet h s t' \<and> absent h t'"
    using notify_try_quiet[OF assms, of e m i] b by simp
  show "quiet h s (snd (notify e m i t))" and "absent h (snd (notify e m i t))"
    using t' by (cases r; simp add: notify_def b log_line_def)+
qed

lemma seqs_Cons_inv:
  assumes "I (snd (f s))" and "\<And>t. I t \<Longrightarrow> I (snd (seqs fs t))"
  shows "I (snd (seqs (f # fs) s))"
proof -
  obtain r s' where fs: "f s = (r, s')" by (cases "f s")
  show ?thesis
    using assms fs by (cases r) (auto simp: seqs_Cons_Ok seqs_Cons_Raised)
qed

lemma seqs_Cons_post:
  assumes "I (snd (f s))" and "\<And>t. I t \<Longrightarrow> J t" and "\<And>t. I t \<Longrightarrow> J (snd (seqs fs t))"
  shows "J (snd (seqs (f # fs) s))"
proof -
  obtain r s' where fs: "f s = (r, s')" by (cases "f s")
  show ?thesis
    using assms fs by (cases r) (auto simp: seqs_Cons_Ok seqs_Cons_Raised)
qed

lemma notify_absent: "absent h t \<Longrightarrow> absent h (snd (notify e m i t))"
  by (rule notify_quiet(2)[of h t]) simp_all

lemma flip_quiet:
  assumes "absent h s"
  shows "quiet h s (snd (flip_activated e n s))" and "absent h (snd (flip_activated e n s))"
proof -
  have "quiet h s (snd (flip_activated e n s)) \<and> absent h (snd (flip_activated e n s))"
  proof (cases "inhibition_activated s")
    case False
    then show ?thesis using assms by (simp add: flip_on)
  next
    case True
    then show ?thesis
      using assms
      by (simp add: flip_activated_def seqs_Cons_fst_Ok seqs_single timer_cancel_def log_line_def
          notify_quiet(1) notify_absent skip_def assign_def split: option.splits)
  qed
  then show "quiet h s (snd (flip_activated e n s))" and "absent h (snd (flip_activated e n s))"
    by simp_all
qed

lemma toggleDPMS_quiet:
  "quiet h s t \<Longrightarrow> quiet h s (snd (toggleDPMS t))"
  "absent h (snd (toggleDPMS t)) = absent h t"
  by (auto simp: toggleDPMS_eq quiet_def)

lemma toggleXSS_quiet:
  "quiet h s t \<Longrightarrow> absent h t \<Longrightarrow> quiet h s (snd (toggleXSS e t))"
  by (cases h) (auto simp: toggleXSS_def quiet_def seqs_single split: option.splits)

lemma adapters_quiet:
  assumes "absent h s"
  shows "quiet h s (snd (toggleDPMS s))"
    and "quiet h s (snd (toggleXSSAndDPMS e s))"
    and "quiet h s (snd (toggleGnome3 e s))"
    and "quiet h s (snd (toggleKDE e s))"
proof -
  show "quiet h s (snd (toggleDPMS s))" by (simp add: toggleDPMS_quiet)
  show "quiet h s (snd (toggleXSSAndDPMS e s))"
    unfolding toggleXSSAndDPMS_def
    by (rule seqs_Cons_inv[where I = "quiet h s"])
       (simp_all add: toggleXSS_quiet assms seqs_single toggleDPMS_quiet)
  show "quiet h s (snd (toggleGnome3 e s))"
    unfolding toggleGnome3_def
  proof (rule seqs_Cons_post[where I = "\<lambda>t. quiet h s t \<and> absent h t"])
    show "quiet h s (snd (toggleDPMS s)) \<and> absent h (snd (toggleDPMS s))"
      by (simp add: toggleDPMS_quiet assms)
  next
    fix t
    assume "quiet h s t \<and> absent h t"
    then show "quiet h s t" by simp
  next
    fix t
    assume "quiet h s t \<and> absent h t"
    then show "quiet h s (snd (seqs [\<lambda>s. if inhibition_successful s
             then (case screenSaverCookie s of
                     Some c \<Rightarrow> remote_call e (SM_Uninhibit c) s
                   | None \<Rightarrow> skip s)
             else inhibit_call e SM_Inhibit (\<lambda>c s. s\<lparr>screenSaverCookie := Some c\<rparr>) s] t))"
      by (cases h) (auto simp: seqs_single snd_inhibit_call split: option.splits)
  qed
  have rel: "quiet h s (snd (seqs [
                    (\<lambda>s. case screenSaverCookie s of
                            Some c \<Rightarrow> remote_call e (SS_UnInhibit c) s
                          | None \<Rightarrow> skip s),
                    (\<lambda>s. case powerManagementCookie s of
                            Some c \<Rightarrow> remote_call e (PM_UnInhibit c) s
                          | None \<Rightarrow> skip s)] t))"
    if "quiet h s t" "absent h t" for t
  proof -
    have "quiet h s (snd (seqs [
                    (\<lambda>s. case screenSaverCookie s of
                            Some c \<Rightarrow> remote_call e (SS_UnInhibit c) s
                          | None \<Rightarrow> skip s),
                    (\<lambda>s. case powerManagementCookie s of
                            Some c \<Rightarrow> remote_call e (PM_UnInhibit c) s
                          | None \<Rightarrow> skip s)] t)) \<and>
          absent h (snd (seqs [
                    (\<lambda>s. case screenSaverCookie s of
                            Some c \<Rightarrow> remote_call e (SS_UnInhibit c) s
                          | None \<Rightarrow> skip s),
                    (\<lambda>s. case powerManagementCookie s of
                            Some c \<Rightarrow> remote_call e (PM_UnInhibit c) s
                          | None \<Rightarrow> skip s)] t))"
    proof (rule seqs_inv[where I = "\<lambda>u. quiet h s u \<and> absent h u"])
      show "quiet h s t \<and> absent h t" using that by simp
    next
      fix f u
      assume "f \<in> set [
                    (\<lambda>s. case screenSaverCookie s of
                            Some c \<Rightarrow> remote_call e (SS_UnInhibit c) s
                          | None \<Rightarrow> skip s),
                    (\<lambda>s. case powerManagementCookie s of
                            Some c \<Rightarrow> remote_call e (PM_UnInhibit c) s
                          | None \<Rightarrow> skip s)]"
        and "quiet h s u \<and> absent h u"
      then show "quiet h s (snd (f u)) \<and> absent h (snd (f u))"
        by (cases h) (auto split: option.splits)
    qed
    then show ?thesis by simp
  qed
  have inh: "quiet h s (snd (seqs [
                    inhibit_call e PM_Inhibit (\<lambda>c s. s\<lparr>powerManagementCookie := Some c\<rparr>),
                    inhibit_call e SS_Inhibit (\<lambda>c s. s\<lparr>screenSaverCookie := Some c\<rparr>)] t))"
    if "quiet h s t" for t
    by (rule seqs_inv[where I = "quiet h s"]) (use that in \<open>auto simp: snd_inhibit_call\<close>)
  show "quiet h s (snd (toggleKDE e s))"
    unfolding toggleKDE_def
  proof (rule seqs_Cons_post[where I = "\<lambda>t. quiet h s t \<and> absent h t"])
    show "quiet h s (snd (toggleDPMS s)) \<and> absent h (snd (toggleDPMS s))"
      by (simp add: toggleDPMS_quiet assms)
  next
    fix t
    assume "quiet h s t \<and> absent h t"
    then show "quiet h s t" by simp
  next
    fix t
    assume "quiet h s t \<and> absent h t"
    then show "quiet h s (snd (seqs [assign (\<lambda>s. s\<lparr>has_ssProxy := True\<rparr>),
       (\<lambda>s. if inhibition_successful s
             then seqs [
                    (\<lambda>s. case screenSaverCookie s of
                            Some c \<Rightarrow> remote_call e (SS_UnInhibit c) s
                          | None \<Rightarrow> skip s),
                    (\<lambda>s. case powerManagementCookie s of
                            Some c \<Rightarrow> remote_call e (PM_UnInhibit c) s
                          | None \<Rightarrow> skip s)] s
             else seqs [
                    inhibit_call e PM_Inhibit (\<lambda>c s. s\<lparr>powerManagementCookie := Some c\<rparr>),
                    inhibit_call e SS_Inhibit (\<lambda>c s. s\<lparr>screenSaverCookie := Some c\<rparr>)] s)] t))"
      by (simp add: seqs_single rel inh)
  qed
qed

lemma dispatch_quiet:
  "absent h s \<Longrightarrow> quiet h s (snd (dispatch e s))"
  by (simp add: dispatch_def adapters_quiet)

lemma perform_quiet:
  assumes "absent h s"
  shows "quiet h s (snd (performTogglingActions e s))"
proof -
  let ?d = "snd (detectScreensaverAndPowersavingType e s)"
  have a: "absent h ?d" and q: "quiet h s ?d"
    using assms by (simp_all add: detect_eq)
  have "quiet h ?d (snd (seqs [dispatch e, log_preventing,
           assign (\<lambda>s. s\<lparr>inhibition_successful := \<not> inhibition_successful s\<rparr>)] ?d))"
  proof (rule seqs_Cons_inv[where I = "quiet h ?d"])
    show "quiet h ?d (snd (dispatch e ?d))" by (rule dispatch_quiet[OF a])
  next
    fix t
    assume t: "quiet h ?d t"
    show "quiet h ?d (snd (seqs [log_preventing,
           assign (\<lambda>s. s\<lparr>inhibition_successful := \<not> inhibition_successful s\<rparr>)] t))"
      by (rule seqs_inv[where I = "quiet h ?d"])
         (use t in \<open>auto simp: log_preventing_def logging_def log_line_def split: option.splits\<close>)
  qed
  then show ?thesis
    using q by (simp only: perform_eval) (rule quiet_trans)
qed

lemma toggle_private_calls:
  "calls (snd (toggle_activated_private e n s)) =
     calls (snd (performTogglingActions e (snd (flip_activated e n s))))"
proof -
  obtain r s2 where p: "performTogglingActions e (snd (flip_activated e n s)) = (r, s2)"
    by (cases "performTogglingActions e (snd (flip_activated e n s))")
  show ?thesis by (cases r) (simp_all add: toggle_private_split p)
qed

lemma toggle_private_quiet:
  assumes "absent h s"
  shows "quiet h s (snd (toggle_activated_private e n s))"
proof -
  let ?s1 = "snd (flip_activated e n s)"
  have "quiet h s (snd (performTogglingActions e ?s1))"
    using flip_quiet(1)[OF assms, of e n] perform_quiet[OF flip_quiet(2)[OF assms, of e n], of e]
    by (rule quiet_trans)
  then show ?thesis
    by (simp add: quiet_def toggle_private_calls)
qed

lemma adapters_release:
  assumes "inhibition_successful s"
  shows "toggleGnome3 e s =
           (case screenSaverCookie s of
              None \<Rightarrow> (Ok, reenable_dpms s)
            | Some c \<Rightarrow> remote_call e (SM_Uninhibit c) (reenable_dpms s))"
    and "toggleKDE e s =
           (case (screenSaverCookie s, powerManagementCookie s) of
              (None, None) \<Rightarrow> (Ok, reenable_dpms s\<lparr>has_ssProxy := True\<rparr>)
            | (None, Some p) \<Rightarrow>
                remote_call e (PM_UnInhibit p) (reenable_dpms s\<lparr>has_ssProxy := True\<rparr>)
            | (Some c, None) \<Rightarrow>
                remote_call e (SS_UnInhibit c) (reenable_dpms s\<lparr>has_ssProxy := True\<rparr>)
            | (Some c, Some p) \<Rightarrow>
                seqs [remote_call e (SS_UnInhibit c), remote_call e (PM_UnInhibit p)]
                  (reenable_dpms s\<lparr>has_ssProxy := True\<rparr>))"
    and "toggleXSSAndDPMS e s =
           (case inhibit_id s of
              None \<Rightarrow> (Ok, reenable_dpms s)
            | Some i \<Rightarrow> (Ok, reenable_dpms (s\<lparr>calls := calls s @ [Source_remove i]\<rparr>)))"
    and "toggleDPMS s = (Ok, reenable_dpms s)"
proof -
  have d: "toggleDPMS t = (Ok, reenable_dpms t)" if "inhibition_successful t" for t
    using that by (simp add: toggleDPMS_eq reenable_dpms_def)
  show "toggleGnome3 e s =
           (case screenSaverCookie s of
              None \<Rightarrow> (Ok, reenable_dpms s)
            | Some c \<Rightarrow> remote_call e (SM_Uninhibit c) (reenable_dpms s))"
    using assms
    by (simp add: toggleGnome3_def seqs_Cons_Ok[OF d] seqs_single reenable_dpms_def skip_def
        split: option.splits)
  show "toggleKDE e s =
           (case (screenSaverCookie s, powerManagementCookie s) of
              (None, None) \<Rightarrow> (Ok, reenable_dpms s\<lparr>has_ssProxy := True\<rparr>)
            | (None, Some p) \<Rightarrow>
                remote_call e (PM_UnInhibit p) (reenable_dpms s\<lparr>has_ssProxy := True\<rparr>)
            | (Some c, None) \<Rightarrow>
                remote_call e (SS_UnInhibit c) (reenable_dpms s\<lparr>has_ssProxy := True\<rparr>)
            | (Some c, Some p) \<Rightarrow>
                seqs [remote_call e (SS_UnInhibit c), remote_call e (PM_UnInhibit p)]
                  (reenable_dpms s\<lparr>has_ssProxy := True\<rparr>))"
  proof -
    let ?t = "reenable_dpms s\<lparr>has_ssProxy := True\<rparr>"
    let ?rel = "seqs [
                    (\<lambda>s. case screenSaverCookie s of
                            Some c \<Rightarrow> remote_call e (SS_UnInhibit c) s
                          | None \<Rightarrow> skip s),
                    (\<lambda>s. case powerManagementCookie s of
                            Some c \<Rightarrow> remote_call e (PM_UnInhibit c) s
                          | None \<Rightarrow> skip s)]"
    have 1: "toggleKDE e s = ?rel ?t"
      using assms
      by (simp add: toggleKDE_def seqs_Cons_Ok[OF d] seqs_single reenable_dpms_def)
    have 2: "?rel ?t =
           (case (screenSaverCookie s, powerManagementCookie s) of
              (None, None) \<Rightarrow> (Ok, ?t)
            | (None, Some p) \<Rightarrow> remote_call e (PM_UnInhibit p) ?t
            | (Some c, None) \<Rightarrow> remote_call e (SS_UnInhibit c) ?t
            | (Some c, Some p) \<Rightarrow>
                seqs [remote_call e (SS_UnInhibit c), remote_call e (PM_UnInhibit p)] ?t)"
    proof (cases "screenSaverCookie s")
      case None
      then show ?thesis
        by (cases "powerManagementCookie s")
           (simp_all add: seqs_Cons_fst_Ok seqs_single reenable_dpms_def skip_def)
    next
      case (Some c)
      show ?thesis
      proof (cases "powerManagementCookie s")
        case None
        have "seqs [remote_call e (SS_UnInhibit c), skip] ?t = remote_call e (SS_UnInhibit c) ?t"
          by (cases "fails e (length (calls ?t)) (SS_UnInhibit c)")
             (simp_all add: seqs.simps remote_call_def skip_def)
        then show ?thesis
          using Some None by (simp add: seqs.simps reenable_dpms_def remote_call_def skip_def)
      next
        case (Some p)
        then show ?thesis
          using \<open>screenSaverCookie s = Some c\<close>
          by (simp add: seqs.simps reenable_dpms_def remote_call_def)
      qed
    qed
    show ?thesis by (simp only: 1 2)
  qed
  show "toggleXSSAndDPMS e s =
           (case inhibit_id s of
              None \<Rightarrow> (Ok, reenable_dpms s)
            | Some i \<Rightarrow> (Ok, reenable_dpms (s\<lparr>calls := calls s @ [Source_remove i]\<rparr>)))"
    using assms
    by (simp add: toggleXSSAndDPMS_def toggleXSS_def seqs_Cons_fst_Ok seqs_single d
        split: option.splits)
  show "toggleDPMS s = (Ok, reenable_dpms s)" by (rule d[OF assms])
qed

lemma dispatch_release_ok:
  assumes "inhibition_successful s" and "screenSaverCookie s = None"
    and "powerManagementCookie s = None"
  shows "fst (dispatch e s) = Ok" and "inhibition_successful (snd (dispatch e s))"
  using assms
  by (simp_all add: dispatch_def adapters_release reenable_dpms_def split: option.splits)

lemma perform_release_ok:
  assumes "inhibition_successful s" and "screenSaverCookie s = None"
    and "powerManagementCookie s = None"
  shows "fst (performTogglingActions e s) = Ok"
proof -
  let ?d = "snd (detectScreensaverAndPowersavingType e s)"
  have d: "inhibition_successful ?d" "screenSaverCookie ?d = None" "powerManagementCookie ?d = None"
    using assms by (simp_all add: detect_eq)
  show ?thesis
    by (simp add: perform_eval seqs_Cons_fst_Ok dispatch_release_ok[OF d] log_preventing_def
        del: snd_conv)
qed

lemma toggle_release_ok:
  assumes "inhibition_successful s" and "absent ScreenSaver s" and "absent PowerManagement s"
  shows "fst (toggle_activated_private e n s) = Ok"
proof -
  let ?s1 = "snd (flip_activated e n s)"
  have "inhibition_successful ?s1" using assms(1) by (simp add: flip_fields)
  moreover have "screenSaverCookie ?s1 = None"
    using flip_quiet(2)[OF assms(2), of e n] by simp
  moreover have "powerManagementCookie ?s1 = None"
    using flip_quiet(2)[OF assms(3), of e n] by simp
  ultimately show ?thesis
    by (simp add: toggle_private_fst perform_release_ok)
qed

lemma perform_gnome_failing:
  "\<not> inhibition_successful s \<Longrightarrow>
   performTogglingActions env_gnome_failing s =
     (Raised (CallFailed SM_Inhibit),
      s\<lparr>screensaverAndPowersavingType := Some ''Gnome3'',
        logs := logs s @
          [(DEBUG, ''Attempting to detect screensaver/powersaving type...''),
           (INFO, ''Successfully detected screensaver and powersaving type: Gnome3'')],
        calls := calls s @ [Shell ''xset -dpms'', Shell ''xset s off'', SM_Inhibit]\<rparr>)"
  by (simp add: perform_eval detect_eq detected_def env_gnome_failing_def env_gnome_def
      dispatch_def toggleGnome3_def toggleDPMS_eq
      inhibit_call_def remote_call_def seqs.simps log_line_def logging_def assign_def)

lemma aborted_activation:
  "toggle_activated env_gnome_failing n init =
     (Raised (CallFailed SM_Inhibit),
      init\<lparr>inhibition_activated := True,
           screensaverAndPowersavingType := Some ''Gnome3'',
           logs := [(DEBUG, ''Attempting to detect screensaver/powersaving type...''),
                    (INFO, ''Successfully detected screensaver and powersaving type: Gnome3'')],
           calls := [Timeout_add 10000, Shell ''xset -dpms'', Shell ''xset s off'', SM_Inhibit]\<rparr>)"
  by (simp add: toggle_activated_def seqs_single toggle_private_split flip_on perform_gnome_failing
      init_def)

lemma timer_fires_fields:
  "events (snd (timer_fires e i s)) = events s"
  "toggles (snd (timer_fires e i s)) = toggles s"
  "inhibition_activated (snd (timer_fires e i s)) = inhibition_activated s"
  "inhibition_successful (snd (timer_fires e i s)) = inhibition_successful s"
  by (simp_all add: timer_fires_def deactivate_def seqs_single split: option.splits)

lemma dpms_active_activated: "inhibition_activated dpms_active"
  by (simp add: dpms_active_def toggle_bare_init)

section \<open>Properties\<close>

subsection \<open>Setting the current value\<close>

text \<open>
  Claim C4. Calling \<open>set_activated\<close> with the value the active flag already has
  returns normally and leaves the whole state as it was: no signal is emitted, no
  timer is cancelled or started, no external call is made, no attribute changes.
\<close>

theorem set_activated_current_noop:
  "set_activated e (get_activated s) show_notification s = (Ok, s)"
  by (simp add: set_activated_def skip_def)

subsection \<open>A backend call that raises\<close>




subsection \<open>The public toggle\<close>




subsection \<open>The monitor\<close>

text \<open>
  Claim C7. While inhibition is active and not auto-activated, a tick of the monitor
  returns at once: it adds one debug record to the log and changes nothing else, so it
  makes no external call, emits no signal and leaves the active flag set, whatever
  the whitelist and the active window are.
\<close>

theorem manual_activation_silences_monitor:
  assumes "inhibition_activated s" and "\<not> auto_activated s"
  shows "attempt_autoactivation e s =
           (Ok, s\<lparr>logs := logs s @
              [(DEBUG, ''Inhibition manually activated. Won'' @ [CHR 0x27] @ ''t attempt to ''
                       @ ''auto-activate'')]\<rparr>)"
  using assms by (simp add: attempt_unfold logging_def log_line_def)

theorem manual_activation_silences_monitor_witness:
  "inhibition_activated (snd (toggle_activated env_gnome True init)) \<and>
   \<not> auto_activated (snd (toggle_activated env_gnome True init)) \<and>
   (\<exists>p\<in>set (process_list env_busy). isProcessRunning env_busy p) \<and>
   fullscreen env_busy \<and>
   fst (attempt_autoactivation env_busy (snd (toggle_activated env_gnome True init))) = Ok \<and>
   inhibition_activated
     (snd (attempt_autoactivation env_busy (snd (toggle_activated env_gnome True init)))) \<and>
   events (snd (attempt_autoactivation env_busy (snd (toggle_activated env_gnome True init)))) =
     events (snd (toggle_activated env_gnome True init)) \<and>
   calls (snd (attempt_autoactivation env_busy (snd (toggle_activated env_gnome True init)))) =
     calls (snd (toggle_activated env_gnome True init))"
  using manual_activation_silences_monitor[of "snd (toggle_activated env_gnome True init)" env_busy]
  by (simp add: toggle_private_always init_def, simp add: env_busy_def fullscreen_def)

text \<open>
  Claim C8, as stated, fails for the ticks that the guard of the first lines stops:
  with inhibition active and not auto-activated, and a whitelisted process running,
  the tick is not an auto-deactivation, the condition holds, and the activation branch
  (whose first statement sets the auto-activated flag) is not taken.
\<close>

theorem guarded_tick_skips_activation:
  "(\<exists>p\<in>set (process_list env_busy). isProcessRunning env_busy p) \<and>
   \<not> auto_activated (snd (toggle_activated env_gnome True init)) \<and>
   auto_activated
     (snd (attempt_autoactivation env_busy (snd (toggle_activated env_gnome True init)))) = False \<and>
   auto_activated
     (snd (activation_branch env_busy
            (monitor_logs env_busy (snd (toggle_activated env_gnome True init))))) = True"
  by (simp add: activation_branch_auto attempt_unfold toggle_private_always init_def log_line_def,
      simp add: env_busy_def)

text \<open>
  Claim C8, amended. On every tick that gets past the guard for manual activation
  (inhibition is not both active and not auto-activated) and that is not an
  auto-deactivation, the activation branch runs exactly when
  \<open>process_running or (fullscreen and not auto_activated)\<close> holds, on the state that
  the tick's log records have extended; otherwise the tick only logs.
\<close>

theorem monitor_activation_condition:
  assumes "\<not> (inhibition_activated s \<and> \<not> auto_activated s)"
    and "\<not> (\<not> (\<exists>p\<in>set (process_list e). isProcessRunning e p) \<and> \<not> fullscreen e \<and>
             auto_activated s)"
  shows "attempt_autoactivation e s =
           (if (\<exists>p\<in>set (process_list e). isProcessRunning e p) \<or>
               (fullscreen e \<and> \<not> auto_activated s)
            then activation_branch e (monitor_logs e s)
            else (Ok, monitor_logs e s))"
  using assms by (auto simp: attempt_unfold)

theorem monitor_activation_condition_witness:
  "\<not> (inhibition_activated init \<and> \<not> auto_activated init) \<and>
   (\<exists>p\<in>set (process_list env_busy). isProcessRunning env_busy p) \<and>
   attempt_autoactivation env_busy init = activation_branch env_busy (monitor_logs env_busy init)"
  using monitor_activation_condition[of init env_busy]
  by (simp add: init_def env_busy_def)

subsection \<open>Releasing without a cookie\<close>




subsection \<open>Detection at every toggle\<close>

text \<open>
  Claim C1 does not hold of the code: \<open>_performTogglingActions\<close> calls the detection
  at every toggle, so the backend type after a toggle is the one detected in the
  environment of that toggle. Here the first toggle finds the Gnome session manager on
  the bus and the second, after the name has left the bus, selects plain DPMS; the
  cookie that the session manager issued is not released.
\<close>

theorem redetection_changes_backend:
  "screensaverAndPowersavingType (run [(env_gnome, Toggle_activated False)] init) = Some ''Gnome3'' \<and>
   screensaverAndPowersavingType
     (run [(env_gnome, Toggle_activated False), (env_bare, Toggle_activated False)] init) =
     Some ''DPMS'' \<and>
   calls (run [(env_gnome, Toggle_activated False), (env_bare, Toggle_activated False)] init) =
     [Timeout_add 10000, Shell ''xset -dpms'', Shell ''xset s off'', SM_Inhibit,
      Shell ''xset +dpms'', Shell ''xset s on'']"
proof -
  have 1: "screensaverAndPowersavingType (run [(env_gnome, Toggle_activated False)] init) =
             Some ''Gnome3''"
    by (simp add: toggle_gnome_init)
  have 2: "run [(env_gnome, Toggle_activated False), (env_bare, Toggle_activated False)] init =
             snd (toggle_activated env_bare False (snd (toggle_activated env_gnome False init)))"
    by (simp only: run_two step.simps)
  have 3: "screensaverAndPowersavingType
             (snd (toggle_activated env_bare False (snd (toggle_activated env_gnome False init)))) =
             Some ''DPMS''"
    by (simp add: toggle_private_always detected_simps)
  have 4: "calls (snd (toggle_activated env_bare False (snd (toggle_activated env_gnome False init)))) =
             [Timeout_add 10000, Shell ''xset -dpms'', Shell ''xset s off'', SM_Inhibit,
              Shell ''xset +dpms'', Shell ''xset s on'']"
    apply (simp only: toggle_gnome_init snd_conv)
    apply (simp add: toggle_activated_def seqs_single toggle_private_split
        flip_off_no_timer perform_bare_off init_def)
    done
  show ?thesis using 1 3 4 by (simp only: 2)
qed

subsection \<open>The two flags\<close>




subsection \<open>Signals and toggles\<close>




subsection \<open>A second timed activation\<close>

text \<open>
  Claim C6. Start without inhibition, without a timer object referenced and without a
  live timer, and let a first timed activation (for \<open>t1\<close>) return normally: its timer
  is then the only live one. A second timed activation (for \<open>t2\<close>) returns normally
  too; it logs that the previous timed activation is cancelled, naming both
  durations, cancels the first timer and starts a new one, which is then the only
  live timer and the one the object references; it emits the one signal of a timed
  activation, with the flag set, and none with the flag clear; the cancelled timer
  can no longer fire, so that its expiry changes nothing.
\<close>

theorem second_timed_activation_supersedes:
  assumes "\<not> inhibition_activated s" and "timer s = None" and "live_timers s = []"
    and "fst (timed_activation e1 t1 n1 s) = Ok"
  shows "live_timers (snd (timed_activation e1 t1 n1 s)) = [next_timer s] \<and>
         fst (timed_activation e2 t2 n2 (snd (timed_activation e1 t1 n1 s))) = Ok \<and>
         live_timers (snd (timed_activation e2 t2 n2 (snd (timed_activation e1 t1 n1 s)))) =
           [Suc (next_timer s)] \<and>
         timer (snd (timed_activation e2 t2 n2 (snd (timed_activation e1 t1 n1 s)))) =
           Some (Suc (next_timer s)) \<and>
         interval (timers (snd (timed_activation e2 t2 n2 (snd (timed_activation e1 t1 n1 s))))
                     (Suc (next_timer s))) = t2 \<and>
         status (timers (snd (timed_activation e2 t2 n2 (snd (timed_activation e1 t1 n1 s))))
                   (next_timer s)) = Cancelled \<and>
         (INFO, superseded_message t1 t2)
           \<in> set (logs (snd (timed_activation e2 t2 n2 (snd (timed_activation e1 t1 n1 s))))) \<and>
         events (snd (timed_activation e2 t2 n2 (snd (timed_activation e1 t1 n1 s)))) =
           events (snd (timed_activation e1 t1 n1 s)) @ [(True, ''Activated for '' @ str_int t2)] \<and>
         timer_fires e3 (next_timer s)
           (snd (timed_activation e2 t2 n2 (snd (timed_activation e1 t1 n1 s)))) =
           (Ok, snd (timed_activation e2 t2 n2 (snd (timed_activation e1 t1 n1 s))))"
proof -
  let ?k = "next_timer s"
  let ?s1 = "snd (timed_activation e1 t1 n1 s)"
  let ?s2 = "snd (timed_activation e2 t2 n2 ?s1)"
  note f = first_timed[OF assms(1,2,4)]
  have old: "\<And>i. i < ?k \<Longrightarrow> status (timers s i) \<noteq> Waiting"
    using assms(3) by (simp add: live_timers_empty)
  have l1: "live_timers ?s1 = [?k]"
    by (rule live_timers_Suc) (use f old in auto)
  note g = second_timed[OF f(1) f(2) f(3), where e = e2 and t = t2 and n = n2]
  have t2: "timers ?s2 =
      (timers s)(?k := \<lparr>interval = t1, name = ''Active'', note_arg = n1, status = Cancelled\<rparr>,
                 Suc ?k := \<lparr>interval = t2, name = ''Active'', note_arg = n2, status = Waiting\<rparr>)"
    using g(4) f(4,5) by (simp add: cancelled_def)
  have n2: "next_timer ?s2 = Suc (Suc ?k)" using g(3) f(4) by simp
  have l2: "live_timers ?s2 = [Suc ?k]"
    by (rule live_timers_Suc) (use n2 t2 old in \<open>auto simp: less_Suc_eq\<close>)
  have lg: "(INFO, superseded_message t1 t2) \<in> set (logs ?s2)"
    using g(5) f(5) by simp
  have ev: "events ?s2 = events ?s1 @ [(True, ''Activated for '' @ str_int t2)]"
    by (rule g(6))
  have tf: "timer_fires e3 ?k ?s2 = (Ok, ?s2)"
    by (simp add: timer_fires_def t2 skip_def)
  show ?thesis
    using l1 g(1) l2 g(2) f(4) t2 lg ev tf by simp
qed

theorem second_timed_activation_supersedes_witness:
  "\<not> inhibition_activated init \<and> timer init = None \<and> live_timers init = [] \<and>
   fst (timed_activation env_gnome 5 True init) = Ok \<and>
   live_timers (snd (timed_activation env_gnome 5 True init)) = [0] \<and>
   live_timers (snd (timed_activation env_gnome 10 True
                      (snd (timed_activation env_gnome 5 True init)))) = [1] \<and>
   interval (timers (snd (timed_activation env_gnome 10 True
                            (snd (timed_activation env_gnome 5 True init)))) 1) = 10 \<and>
   status (timers (snd (timed_activation env_gnome 10 True
                            (snd (timed_activation env_gnome 5 True init)))) 0) = Cancelled \<and>
   (INFO, ''Previous timed activation cancelled due to a second timed activation request (was set for 5 or 10 seconds )'')
     \<in> set (logs (snd (timed_activation env_gnome 10 True
                          (snd (timed_activation env_gnome 5 True init))))) \<and>
   events (snd (timed_activation env_gnome 10 True (snd (timed_activation env_gnome 5 True init)))) =
     [(False, ''Activated for 5''), (True, ''Activated for 5''), (True, ''Activated for 10'')]"
proof -
  have h: "\<not> inhibition_activated init" "timer init = None" "live_timers init = []"
    "next_timer init = 0"
    by (simp_all add: init_def live_timers_def)
  have ok: "fst (timed_activation env_gnome 5 True init) = Ok"
    by (rule timed_no_failure) simp
  show ?thesis
    using second_timed_activation_supersedes[OF h(1,2,3) ok,
        where ?e2.0 = env_gnome and ?t2.0 = 10 and ?n2.0 = True and ?e3.0 = env_gnome]
    by (simp add: h ok timed_gnome_init superseded_message_def)
qed

end
